theory Spec2Isabelle
  imports Complex_Main "HOL-Library.AList"
begin

section \<open>Strings\<close>

text \<open>
  The Python source works on \<open>str\<close> values. They are modelled as \<open>string\<close>, one
  \<open>char\<close> per code point, so the model covers the code points 0 to 255 (Latin-1).
  On that range \<open>str.isspace\<close>, the \<open>\\s\<close> class of \<open>re\<close> and the separator set of
  \<open>str.split(None)\<close> agree: the characters 9 to 13, 28 to 32, 133 and 160.
\<close>

definition is_space :: "char \<Rightarrow> bool" where
  "is_space c = (c \<in> set [CHR 0x09, CHR 0x0A, CHR 0x0B, CHR 0x0C, CHR 0x0D,
                           CHR 0x1C, CHR 0x1D, CHR 0x1E, CHR 0x1F, CHR 0x20,
                           CHR 0x85, CHR 0xA0])"

definition lstrip :: "string \<Rightarrow> string" where
  "lstrip s = dropWhile is_space s"

definition rstrip :: "string \<Rightarrow> string" where
  "rstrip s = rev (dropWhile is_space (rev s))"

text \<open>\<open>s.strip()\<close>\<close>

definition strip :: "string \<Rightarrow> string" where
  "strip s = rstrip (lstrip s)"

text \<open>\<open>s.startswith(p)\<close>\<close>

definition startswith :: "string \<Rightarrow> string \<Rightarrow> bool" where
  "startswith s p = (take (length p) s = p)"

text \<open>\<open>p in s\<close> for strings: \<open>p\<close> occurs in \<open>s\<close> as a contiguous substring.\<close>

fun substr_in :: "string \<Rightarrow> string \<Rightarrow> bool" where
  "substr_in p [] = (p = [])"
| "substr_in p (c # cs) = (startswith (c # cs) p \<or> substr_in p cs)"

text \<open>
  \<open>s.split(None, 1)\<close>: leading whitespace is skipped, the first token is the maximal run
  of non-whitespace, the whitespace after it is skipped, and what remains (if anything)
  is the second part, with its trailing whitespace kept.
\<close>

definition split_ws1 :: "string \<Rightarrow> string list" where
  "split_ws1 s =
     (let t = dropWhile is_space s in
      if t = [] then []
      else
        (let tok = takeWhile (\<lambda>c. \<not> is_space c) t;
             r = dropWhile is_space (dropWhile (\<lambda>c. \<not> is_space c) t)
         in if r = [] then [tok] else [tok, r]))"

text \<open>\<open>s.split('#')[0]\<close>: the text before the first \<open>#\<close> (all of \<open>s\<close> if there is none).\<close>

definition before_hash :: "string \<Rightarrow> string" where
  "before_hash s = takeWhile (\<lambda>c. c \<noteq> CHR ''#'') s"

text \<open>
  \<open>s.lower()\<close> on Latin-1: the letters A to Z and the accented capitals 192 to 222
  (without the multiplication sign 215) move up by 32; every other character stays.
\<close>

definition lower_char :: "char \<Rightarrow> char" where
  "lower_char c =
     (let n = (of_char c :: nat) in
      if (65 \<le> n \<and> n \<le> 90) \<or> (192 \<le> n \<and> n \<le> 222 \<and> n \<noteq> 215)
      then char_of (n + 32) else c)"

definition lower :: "string \<Rightarrow> string" where
  "lower s = map lower_char s"

section \<open>CommandFilter\<close>

text \<open>
  A compiled regular expression of Python's \<open>re\<close> module is a library object; the model
  takes it as a pair of functions, \<open>match\<close> (at the start of the text) and \<open>search\<close>
  (anywhere in the text). Each returns \<open>Inr b\<close> for the truth value of the result
  (a match object or \<open>None\<close>), or \<open>Inl msg\<close> when the call raises.
\<close>

type_synonym matcher = "string \<Rightarrow> string + bool"

record regex =
  re_match :: matcher
  re_search :: matcher

text \<open>A rule is the pair \<open>(pattern, regex)\<close> that \<open>__init__\<close> appends.\<close>

type_synonym rule = "string \<times> regex"

record config =
  whitelist :: "string list"
  blacklist :: "string list"

record command_filter =
  whitelist_patterns :: "string list"
  blacklist_patterns :: "string list"
  whitelist_enabled :: bool
  whitelist_rules :: "rule list"
  blacklist_rules :: "rule list"



text \<open>\<open>CommandFilter._extract_main_command\<close>\<close>

definition extract_main_command :: "string \<Rightarrow> string" where
  "extract_main_command command0 =
     (let command = strip command0;
          command =
            (if CHR ''='' \<in> set command \<and> \<not> startswith command ''=''
             then
               (let parts = split_ws1 command in
                if length parts > 1 \<and> CHR ''='' \<in> set (parts ! 0)
                     \<and> \<not> startswith (parts ! 0) ''=''
                then parts ! 1 else command)
             else command);
          command =
            (if CHR ''#'' \<in> set command then strip (before_hash command) else command)
      in strip command)"

text \<open>
  \<open>rm_pattern.match(main_command)\<close> for the pattern \<open>^\\s*rm\\s+\<close>: optional
  whitespace, the two letters \<open>rm\<close>, then at least one whitespace character.
\<close>

definition rm_pattern_match :: "string \<Rightarrow> bool" where
  "rm_pattern_match s =
     (let t = dropWhile is_space s in
      startswith t ''rm'' \<and> (case drop 2 t of [] \<Rightarrow> False | c # _ \<Rightarrow> is_space c))"

definition help_patterns :: "string list" where
  "help_patterns = [''--help'', ''--version'', ''-h'', ''-v'', ''--usage'']"

text \<open>
  The source's message literals are Chinese text. The file renders each by its English
  translation and keeps every ASCII fragment of the literal as it is. The category
  returned by \<open>check_dangerous_command\<close> is the Chinese phrase for "deletion command".
\<close>

definition deletion_category :: string where
  "deletion_category = ''deletion command''"

text \<open>\<open>CommandFilter.check_dangerous_command\<close>\<close>

definition check_dangerous_command :: "string \<Rightarrow> bool \<times> string" where
  "check_dangerous_command command =
     (let main_command = extract_main_command command in
      if rm_pattern_match main_command then
        (let command_lower = lower main_command in
         if list_ex (\<lambda>help_pattern. substr_in help_pattern command_lower) help_patterns
         then (False, '''')
         else (True, deletion_category))
      else (False, ''''))"

text \<open>
  The blacklist loop of \<open>is_allowed\<close>. An exception inside the \<open>try\<close> is logged and the
  loop goes on with the next rule. The result is the pattern of the rule that rejected
  the command, if any.
\<close>

fun check_blacklist :: "rule list \<Rightarrow> string \<Rightarrow> string option" where
  "check_blacklist [] main_command = None"
| "check_blacklist ((pattern, rx) # rules) main_command =
     (if startswith pattern ''^'' then
        (case re_match rx main_command of
           Inr True \<Rightarrow> Some pattern
         | _ \<Rightarrow> check_blacklist rules main_command)
      else
        (case re_match rx main_command of
           Inr True \<Rightarrow> Some pattern
         | Inr False \<Rightarrow>
             (case re_search rx main_command of
                Inr True \<Rightarrow> Some pattern
              | _ \<Rightarrow> check_blacklist rules main_command)
         | Inl e \<Rightarrow> check_blacklist rules main_command))"

text \<open>
  The whitelist loop: \<open>regex.match(c) or regex.search(c)\<close> inside a \<open>try\<close>; the first
  rule for which it is true ends the loop.
\<close>

fun check_whitelist :: "rule list \<Rightarrow> string \<Rightarrow> bool" where
  "check_whitelist [] main_command = False"
| "check_whitelist ((pattern, rx) # rules) main_command =
     (case re_match rx main_command of
        Inr True \<Rightarrow> True
      | Inr False \<Rightarrow>
          (case re_search rx main_command of
             Inr True \<Rightarrow> True
           | _ \<Rightarrow> check_whitelist rules main_command)
      | Inl e \<Rightarrow> check_whitelist rules main_command)"

definition reason_blacklisted :: "string \<Rightarrow> string" where
  "reason_blacklisted pattern = ''command rejected by blacklist rule: '' @ pattern"

definition reason_whitelisted :: string where
  "reason_whitelisted = ''command passed whitelist check''"

definition reason_not_whitelisted :: string where
  "reason_not_whitelisted = ''command not in whitelist''"

definition reason_passed :: string where
  "reason_passed = ''command passed filter check''"

text \<open>\<open>CommandFilter.is_allowed\<close>: (allowed, reason, matched rule).\<close>

definition is_allowed :: "command_filter \<Rightarrow> string \<Rightarrow> bool \<times> string \<times> string option" where
  "is_allowed flt command =
     (let main_command = extract_main_command command in
      case check_blacklist (blacklist_rules flt) main_command of
        Some pattern \<Rightarrow> (False, reason_blacklisted pattern, Some pattern)
      | None \<Rightarrow>
          if whitelist_enabled flt then
            (if check_whitelist (whitelist_rules flt) main_command
             then (True, reason_whitelisted, None)
             else (False, reason_not_whitelisted, None))
          else (True, reason_passed, None))"

subsection \<open>Predicates of the specification, for the policy theorems\<close>

text \<open>
  A deny rule matches a text the way the specification puts it: a pattern that begins
  with \<open>^\<close> counts only with a start-match; any other pattern counts with a
  start-match or, when the start-match found nothing, with a search anywhere in the
  text. A call that raises is a non-match of that rule.
\<close>

definition deny_rule_matches :: "string \<Rightarrow> rule \<Rightarrow> bool" where
  "deny_rule_matches text r =
     (if startswith (fst r) ''^'' then re_match (snd r) text = Inr True
      else re_match (snd r) text = Inr True
           \<or> (re_match (snd r) text = Inr False \<and> re_search (snd r) text = Inr True))"



text \<open>
  Whether \<open>_extract_main_command\<close> drops the first token of the (stripped) command as a
  variable assignment.
\<close>

definition drops_assignment :: "string \<Rightarrow> bool" where
  "drops_assignment command =
     (CHR ''='' \<in> set command \<and> \<not> startswith command ''=''
      \<and> length (split_ws1 command) > 1 \<and> CHR ''='' \<in> set (split_ws1 command ! 0)
      \<and> \<not> startswith (split_ws1 command ! 0) ''='')"

text \<open>
  The \<open>#\<close> of a command lies outside a dropped assignment token: where the first token
  is dropped, it holds no \<open>#\<close> and the text after it does not begin with \<open>#\<close>.
\<close>

definition hash_outside_assignment :: "string \<Rightarrow> bool" where
  "hash_outside_assignment c =
     (drops_assignment (strip c) \<longrightarrow>
        CHR ''#'' \<notin> set (split_ws1 (strip c) ! 0)
        \<and> \<not> startswith (split_ws1 (strip c) ! 1) ''#'')"

subsection \<open>Regular expressions of the examples\<close>

text \<open>
  The object \<open>re.compile\<close> returns for a pattern without metacharacters: \<open>match\<close> tests
  for the pattern at the start of the text, \<open>search\<close> for an occurrence anywhere.
\<close>

definition literal_regex :: "string \<Rightarrow> regex" where
  "literal_regex lit =
     \<lparr> re_match = (\<lambda>s. Inr (startswith s lit)),
       re_search = (\<lambda>s. Inr (substr_in lit s)) \<rparr>"

text \<open>
  The object for a pattern \<open>^word\<close> with a literal \<open>word\<close>: the anchor lets
  \<open>search\<close> succeed only at the start of the text too.
\<close>

definition anchored_regex :: "string \<Rightarrow> regex" where
  "anchored_regex word =
     \<lparr> re_match = (\<lambda>s. Inr (startswith s word)),
       re_search = (\<lambda>s. Inr (startswith s word)) \<rparr>"



definition example_filter :: command_filter where
  "example_filter =
     \<lparr> whitelist_patterns = [''df''],
       blacklist_patterns = [''^shutdown'', ''rm -rf''],
       whitelist_enabled = True,
       whitelist_rules = [(''df'', literal_regex ''df'')],
       blacklist_rules = [(''^shutdown'', anchored_regex ''shutdown''),
                          (''rm -rf'', literal_regex ''rm -rf'')] \<rparr>"

definition open_filter :: command_filter where
  "open_filter =
     \<lparr> whitelist_patterns = [], blacklist_patterns = [''rm -rf''],
       whitelist_enabled = False, whitelist_rules = [],
       blacklist_rules = [(''rm -rf'', literal_regex ''rm -rf'')] \<rparr>"

section \<open>SessionManager\<close>

text \<open>
  Times are the floats of \<open>time.time()\<close>, modelled as reals (the rounding of float
  arithmetic is left out). A Python \<open>dict\<close> keeps insertion order and is modelled as an
  association list with \<open>map_of\<close>, \<open>AList.update\<close> and \<open>AList.delete\<close>.
  An SSH client object is a handle (a natural number).

  A session is a mutable \<open>dict\<close>; its identity is the field \<open>oid\<close>, taken from a counter
  of the manager when the \<open>dict\<close> is created.
\<close>

type_synonym env_map = "(string \<times> string) list"

record session =
  oid :: nat
  host :: "string option"
  username :: "string option"
  ssh_client :: "nat option"
  created :: real
  last_used :: real
  local_env :: env_map

text \<open>
  \<open>close_calls\<close> is a trace, not a field of the Python object: the handles on which
  \<open>_cleanup_session\<close> called \<open>close()\<close>, in order.
\<close>

record session_manager =
  sessions :: "(string \<times> session) list"
  session_timeout :: real
  next_oid :: nat
  close_calls :: "nat list"

text \<open>\<open>SessionManager.__init__\<close>\<close>

definition SessionManager_init :: "real \<Rightarrow> session_manager" where
  "SessionManager_init timeout =
     \<lparr> sessions = [], session_timeout = timeout, next_oid = 0, close_calls = [] \<rparr>"

text \<open>
  \<open>SessionManager._cleanup_session\<close>. \<open>ssh_close\<close> is the outcome of \<open>close()\<close> on a
  handle (\<open>Inl\<close>: it raised); the bare \<open>except\<close> discards the exception, and the session
  is deleted either way.
\<close>

definition cleanup_session ::
  "(nat \<Rightarrow> string + unit) \<Rightarrow> string \<Rightarrow> session_manager \<Rightarrow> session_manager" where
  "cleanup_session ssh_close session_id sm =
     (case map_of (sessions sm) session_id of
        None \<Rightarrow> sm
      | Some session \<Rightarrow>
          (let sm1 =
             (case ssh_client session of
                None \<Rightarrow> sm
              | Some client \<Rightarrow>
                  (case ssh_close client of
                     Inl e \<Rightarrow> sm\<lparr>close_calls := close_calls sm @ [client]\<rparr>
                   | Inr u \<Rightarrow> sm\<lparr>close_calls := close_calls sm @ [client]\<rparr>))
           in sm1\<lparr>sessions := AList.delete session_id (sessions sm1)\<rparr>))"

text \<open>The first loop of \<open>get_session\<close>: the ids of the sessions idle for more than the timeout.\<close>

definition is_expired :: "session_manager \<Rightarrow> real \<Rightarrow> string \<times> session \<Rightarrow> bool" where
  "is_expired sm current_time entry =
     (current_time - last_used (snd entry) > session_timeout sm)"

definition expired_sessions :: "session_manager \<Rightarrow> real \<Rightarrow> string list" where
  "expired_sessions sm current_time =
     map fst (filter (is_expired sm current_time) (sessions sm))"

text \<open>
  \<open>SessionManager.get_session\<close>, the body under \<open>with self.lock\<close> as one step.
  \<open>current_time\<close> is what \<open>time.time()\<close> returns there. The result is the session
  \<open>dict\<close> and the manager after the call.
\<close>

definition get_session ::
  "(nat \<Rightarrow> string + unit) \<Rightarrow> real \<Rightarrow> session_manager \<Rightarrow> string \<Rightarrow> string option
     \<Rightarrow> string option \<Rightarrow> session \<times> session_manager" where
  "get_session ssh_close current_time sm session_id host_arg username_arg =
     (let sm1 = fold (cleanup_session ssh_close) (expired_sessions sm current_time) sm in
      case map_of (sessions sm1) session_id of
        None \<Rightarrow>
          (let new_session =
                 \<lparr> oid = next_oid sm1, host = host_arg, username = username_arg,
                   ssh_client = None, created = current_time, last_used = current_time,
                   local_env = [] \<rparr>
           in (new_session,
               sm1\<lparr>sessions := AList.update session_id new_session (sessions sm1),
                   next_oid := Suc (next_oid sm1)\<rparr>))
      | Some existing \<Rightarrow>
          (let refreshed = existing\<lparr>last_used := current_time\<rparr>
           in (refreshed,
               sm1\<lparr>sessions := AList.update session_id refreshed (sessions sm1)\<rparr>)))"

text \<open>
  The handles of the connections the stored sessions hold, and the invariant of a
  manager: session ids are the keys of a \<open>dict\<close>, every stored \<open>dict\<close> was created
  before the counter's current value, and no two sessions share an object or a
  connection.
\<close>

definition stored_clients :: "session_manager \<Rightarrow> nat list" where
  "stored_clients sm = List.map_filter (\<lambda>entry. ssh_client (snd entry)) (sessions sm)"

definition manager_ok :: "session_manager \<Rightarrow> bool" where
  "manager_ok sm =
     (distinct (map fst (sessions sm))
      \<and> list_all (\<lambda>entry. oid (snd entry) < next_oid sm) (sessions sm)
      \<and> distinct (map (\<lambda>entry. oid (snd entry)) (sessions sm))
      \<and> distinct (stored_clients sm))"

text \<open>The \<open>close()\<close> calls a step added to the trace.\<close>

definition new_close_calls :: "session_manager \<Rightarrow> session_manager \<Rightarrow> nat list" where
  "new_close_calls before after = drop (length (close_calls before)) (close_calls after)"

section \<open>Executors\<close>

record ExecuteResult =
  stdout :: string
  stderr :: string
  exit_code :: int
  execution_time :: real

text \<open>
  What lies behind the executors is the operating system and the SSH library. An
  \<open>outcome\<close> is \<open>Inl msg\<close> when the calls inside the \<open>try\<close> raise an \<open>Exception\<close> with
  text \<open>msg\<close>, and \<open>Inr\<close> of the decoded output and the exit status otherwise. Signals
  that are not an \<open>Exception\<close> (cancellation of the coroutine, keyboard interrupt) are outside the
  model.
\<close>

type_synonym local_outcome = "string + (string \<times> string \<times> int option)"
type_synonym ssh_outcome = "string + (string \<times> string \<times> int)"

text \<open>\<open>d.update(e)\<close> on dictionaries.\<close>

definition dict_update :: "env_map \<Rightarrow> env_map \<Rightarrow> env_map" where
  "dict_update d e = fold (\<lambda>kv. AList.update (fst kv) (snd kv)) e d"

text \<open>\<open>sep.join(parts)\<close>\<close>

fun join :: "string \<Rightarrow> string list \<Rightarrow> string" where
  "join sep [] = []"
| "join sep [x] = x"
| "join sep (x # y # ys) = x @ sep @ join sep (y # ys)"

definition failed_local :: "string \<Rightarrow> string" where
  "failed_local msg = ''local command execution failed: '' @ msg"

definition failed_ssh :: "string \<Rightarrow> string" where
  "failed_ssh msg = ''SSH command execution failed: '' @ msg"

text \<open>
  \<open>LocalExecutor.execute_command\<close>: \<open>start_time\<close> and \<open>end_time\<close> are the two readings of
  \<open>time.time()\<close>, \<open>os_environ\<close> the environment of the process, \<open>backend\<close> the subprocess
  (spawn, communicate, decode) as a function of command, environment and directory.
\<close>

definition LocalExecutor_execute_command ::
  "(string \<Rightarrow> env_map \<Rightarrow> string option \<Rightarrow> local_outcome) \<Rightarrow> env_map \<Rightarrow> real \<Rightarrow> real
     \<Rightarrow> string \<Rightarrow> env_map \<Rightarrow> string option \<Rightarrow> ExecuteResult" where
  "LocalExecutor_execute_command backend os_environ start_time end_time command env cwd =
     (let exec_env = dict_update os_environ env in
      case backend command exec_env cwd of
        Inr (stdout_data, stderr_data, returncode) \<Rightarrow>
          \<lparr> stdout = stdout_data, stderr = stderr_data,
            exit_code = (case returncode of None \<Rightarrow> 0 | Some rc \<Rightarrow> rc),
            execution_time = end_time - start_time \<rparr>
      | Inl e \<Rightarrow>
          \<lparr> stdout = '''', stderr = failed_local e, exit_code = 1,
            execution_time = end_time - start_time \<rparr>)"

text \<open>The \<open>export K='V'; \<close> prefix of \<open>SSHExecutor.execute_command\<close>.\<close>

definition env_str :: "env_map \<Rightarrow> string" where
  "env_str env =
     (if env = [] then ''''
      else join ''; '' (map (\<lambda>kv. ''export '' @ fst kv @ ''='' @ [CHR 0x27] @ snd kv @ [CHR 0x27]) env)
           @ ''; '')"

text \<open>\<open>SSHExecutor.execute_command\<close>: \<open>backend\<close> is \<open>exec_command\<close> on the client with the reads.\<close>

definition SSHExecutor_execute_command ::
  "(nat \<Rightarrow> string \<Rightarrow> ssh_outcome) \<Rightarrow> real \<Rightarrow> real \<Rightarrow> nat \<Rightarrow> string \<Rightarrow> env_map \<Rightarrow> ExecuteResult" where
  "SSHExecutor_execute_command backend start_time end_time client command env =
     (let full_command = env_str env @ command in
      case backend client full_command of
        Inr (stdout_data, stderr_data, status) \<Rightarrow>
          \<lparr> stdout = stdout_data, stderr = stderr_data, exit_code = status,
            execution_time = end_time - start_time \<rparr>
      | Inl e \<Rightarrow>
          \<lparr> stdout = '''', stderr = failed_ssh e, exit_code = 1,
            execution_time = end_time - start_time \<rparr>)"


section \<open>TerminalMCPServer\<close>

text \<open>Decimal text of an integer, as \<open>str\<close> and f-strings print it.\<close>

fun str_nat :: "nat \<Rightarrow> string" where
  "str_nat n =
     (if n < 10 then [char_of (48 + n)]
      else str_nat (n div 10) @ [char_of (48 + n mod 10)])"

definition str_int :: "int \<Rightarrow> string" where
  "str_int i = (if i < 0 then CHR ''-'' # str_nat (nat (- i)) else str_nat (nat i))"

text \<open>
  The arguments of the tool \<open>execute_command\<close>, a JSON object typed by the tool's input
  schema; \<open>None\<close> is an absent key.
\<close>

record args =
  arg_command :: "string option"
  arg_host :: "string option"
  arg_username :: "string option"
  arg_password :: "string option"
  arg_key_file :: "string option"
  arg_port :: "int option"
  arg_session :: "string option"
  arg_env :: "env_map option"
  arg_cwd :: "string option"
  arg_force_execute :: "bool option"

text \<open>
  The result \<open>dict\<close> of the tool: \<open>content_text\<close> is \<open>content[0].text\<close>; the keys
  \<open>requires_confirmation\<close> and \<open>dangerous_command\<close> exist only in the confirmation
  result.
\<close>

record tool_result =
  content_text :: string
  isError :: bool
  requires_confirmation :: "bool option"
  dangerous_command :: "string option"

text \<open>
  The system around the server: whether paramiko was imported, the process environment,
  the two backends, connecting, the liveness of a client's transport, \<open>close()\<close> on a
  client, and the \<open>:.2f\<close> formatting of a float.
\<close>

record system =
  sys_ssh_available :: bool
  sys_environ :: env_map
  sys_local :: "string \<Rightarrow> env_map \<Rightarrow> string option \<Rightarrow> local_outcome"
  sys_ssh_exec :: "nat \<Rightarrow> string \<Rightarrow> ssh_outcome"
  sys_ssh_connect :: "string \<Rightarrow> string \<Rightarrow> string option \<Rightarrow> string option \<Rightarrow> int \<Rightarrow> string + unit"
  sys_ssh_active :: "nat \<Rightarrow> bool"
  sys_ssh_close :: "nat \<Rightarrow> string + unit"
  sys_format_2f :: "real \<Rightarrow> string"

text \<open>The values \<open>time.time()\<close> returns at the call sites that one request reaches.\<close>

record readings =
  now_session :: real
  now_start :: real
  now_end :: real
  now_ping :: real

text \<open>
  The state a request can change: the session manager, the counter of SSH client
  handles, and two traces: the executor calls made (\<open>executed\<close>) and the clients that
  \<open>create_ssh_client\<close> closed after a failed connect.
\<close>

datatype exec_call = LocalCall string env_map "string option" | RemoteCall nat string

record world =
  manager :: session_manager
  next_client :: nat
  executed :: "exec_call list"
  closed_after_failure :: "nat list"

text \<open>\<open>SSHExecutor.create_ssh_client\<close>: \<open>Inl\<close> is the text of the exception it raises.\<close>

definition create_ssh_client ::
  "system \<Rightarrow> string \<Rightarrow> string \<Rightarrow> string option \<Rightarrow> string option \<Rightarrow> int \<Rightarrow> world
     \<Rightarrow> (string + nat) \<times> world" where
  "create_ssh_client sys host_name user key_file password port w =
     (if \<not> sys_ssh_available sys
      then (Inl ''SSH is unavailable, install paramiko: pip install paramiko'', w)
      else
        (let client = next_client w; w1 = w\<lparr>next_client := Suc client\<rparr> in
         case sys_ssh_connect sys host_name user key_file password port of
           Inr u \<Rightarrow> (Inr client, w1)
         | Inl e \<Rightarrow>
             (Inl (''SSH connection failed: '' @ e),
              w1\<lparr>closed_after_failure := closed_after_failure w1 @ [client]\<rparr>)))"

text \<open>A store into a key of the session \<open>dict\<close> that \<open>get_session\<close> returned for \<open>session_id\<close>.\<close>

definition store_session :: "string \<Rightarrow> session \<Rightarrow> world \<Rightarrow> world" where
  "store_session session_id s w =
     w\<lparr>manager := (manager w)\<lparr>sessions := AList.update session_id s (sessions (manager w))\<rparr>\<rparr>"

definition failed_remote :: "string \<Rightarrow> string" where
  "failed_remote msg = ''remote command execution failed: '' @ msg"

text \<open>\<open>TerminalMCPServer._execute_remote_command\<close>\<close>

definition execute_remote_command ::
  "system \<Rightarrow> readings \<Rightarrow> string \<Rightarrow> session \<Rightarrow> string \<Rightarrow> string \<Rightarrow> string
     \<Rightarrow> string option \<Rightarrow> string option \<Rightarrow> int \<Rightarrow> env_map \<Rightarrow> world \<Rightarrow> ExecuteResult \<times> world" where
  "execute_remote_command sys rd session_id s command host_name user password key_file port env w =
     (let reusable =
        (case ssh_client s of
           None \<Rightarrow> None
         | Some client \<Rightarrow> if sys_ssh_active sys client then Some client else None)
      in
      case reusable of
        Some client \<Rightarrow>
          (SSHExecutor_execute_command (sys_ssh_exec sys) (now_start rd) (now_end rd) client command env,
           w\<lparr>executed := executed w @ [RemoteCall client (env_str env @ command)]\<rparr>)
      | None \<Rightarrow>
          (case create_ssh_client sys host_name user key_file password port w of
             (Inl e, w1) \<Rightarrow>
               (\<lparr> stdout = '''', stderr = failed_remote e, exit_code = 1, execution_time = 0 \<rparr>, w1)
           | (Inr client, w1) \<Rightarrow>
               (let w2 = store_session session_id (s\<lparr>ssh_client := Some client\<rparr>) w1 in
                (SSHExecutor_execute_command (sys_ssh_exec sys) (now_start rd) (now_end rd)
                   client command env,
                 w2\<lparr>executed := executed w2 @ [RemoteCall client (env_str env @ command)]\<rparr>))))"

text \<open>\<open>TerminalMCPServer._execute_local_command\<close>\<close>

definition execute_local_command ::
  "system \<Rightarrow> readings \<Rightarrow> string \<Rightarrow> session \<Rightarrow> string \<Rightarrow> env_map \<Rightarrow> string option \<Rightarrow> world
     \<Rightarrow> ExecuteResult \<times> world" where
  "execute_local_command sys rd session_id s command env cwd w =
     (let session_env = dict_update (local_env s) env;
          result = LocalExecutor_execute_command (sys_local sys) (sys_environ sys)
                     (now_start rd) (now_end rd) command session_env cwd;
          w1 = store_session session_id (s\<lparr>local_env := session_env\<rparr>) w
      in (result, w1\<lparr>executed := executed w1 @ [LocalCall command session_env cwd]\<rparr>))"

text \<open>The texts of \<open>_execute_command\<close>. \<open>nl\<close> is a line feed, \<open>dq\<close> a double quote.\<close>

definition nl :: string where
  "nl = [CHR 0x0A]"

definition dq :: string where
  "dq = [CHR 0x22]"

definition warning_msg :: "string \<Rightarrow> string \<Rightarrow> string" where
  "warning_msg command danger_type =
     ''**'' @ ''Dangerous command warning'' @ ''**'' @ nl @ nl
     @ ''Dangerous operation detected: `'' @ command @ ''`'' @ nl @ nl
     @ ''**Command type**: '' @ danger_type @ nl
     @ ''**Risk**: this operation may lose data or damage the system'' @ nl @ nl
     @ ''**To run this command, confirm and resubmit it with the `'' @ ''force_execute=true''
     @ ''` parameter.**'' @ nl @ nl
     @ ''Example:'' @ nl
     @ ''```json'' @ nl
     @ ''{'' @ nl
     @ ''  '' @ dq @ ''command'' @ dq @ '': '' @ dq @ command @ dq @ '','' @ nl
     @ ''  '' @ dq @ ''force_execute'' @ dq @ '': true'' @ nl
     @ ''}'' @ nl
     @ ''```''"

definition confirmation_result :: "string \<Rightarrow> string \<Rightarrow> tool_result" where
  "confirmation_result command danger_type =
     \<lparr> content_text = warning_msg command danger_type, isError = False,
       requires_confirmation = Some True, dangerous_command = Some command \<rparr>"

definition plain_result :: "string \<Rightarrow> bool \<Rightarrow> tool_result" where
  "plain_result t e =
     \<lparr> content_text = t, isError = e, requires_confirmation = None, dangerous_command = None \<rparr>"

definition denied_text :: "string \<Rightarrow> string" where
  "denied_text reason = ''command execution refused: '' @ reason"

definition failed_text :: "string \<Rightarrow> string" where
  "failed_text msg = ''command execution failed: '' @ msg"

definition username_required_text :: string where
  "username_required_text = ''remote execution needs the username parameter''"

text \<open>The formatting at the end of \<open>_execute_command\<close>.\<close>

definition format_result :: "system \<Rightarrow> ExecuteResult \<Rightarrow> tool_result" where
  "format_result sys result =
     (let output_parts =
            (if strip (stdout result) \<noteq> [] then [''standard output:'' @ nl @ stdout result] else [])
            @ (if strip (stderr result) \<noteq> [] then [''standard error:'' @ nl @ stderr result] else [])
            @ [''exit code: '' @ str_int (exit_code result)]
            @ [''execution time: '' @ sys_format_2f sys (execution_time result) @ '' s'']
      in plain_result (join (nl @ nl) output_parts) (exit_code result \<noteq> 0))"

text \<open>Truth value of an optional string: absent and empty are false.\<close>

definition truthy :: "string option \<Rightarrow> bool" where
  "truthy x = (case x of None \<Rightarrow> False | Some s \<Rightarrow> s \<noteq> [])"

text \<open>
  The part of \<open>_execute_command\<close> after the two checks: resolve the session, run the
  command remotely or locally, format the result.
\<close>

definition run_command ::
  "system \<Rightarrow> readings \<Rightarrow> args \<Rightarrow> string \<Rightarrow> world \<Rightarrow> tool_result \<times> world" where
  "run_command sys rd a command w =
     (let session_id = (case arg_session a of None \<Rightarrow> ''default'' | Some s \<Rightarrow> s);
          port = (case arg_port a of None \<Rightarrow> 22 | Some p \<Rightarrow> p);
          env = (case arg_env a of None \<Rightarrow> [] | Some e \<Rightarrow> e);
          (s, m) = get_session (sys_ssh_close sys) (now_session rd) (manager w) session_id
                     (arg_host a) (arg_username a);
          w1 = w\<lparr>manager := m\<rparr>
      in
      if truthy (arg_host a) then
        (if \<not> truthy (arg_username a) then (plain_result username_required_text True, w1)
         else
           (let (result, w2) =
                  execute_remote_command sys rd session_id s command (the (arg_host a))
                    (the (arg_username a)) (arg_password a) (arg_key_file a) port env w1
            in (format_result sys result, w2)))
      else
        (let (result, w2) = execute_local_command sys rd session_id s command env (arg_cwd a) w1
         in (format_result sys result, w2)))"

text \<open>
  \<open>TerminalMCPServer._execute_command\<close>. A missing \<open>command\<close> key raises \<open>KeyError\<close>,
  which the outer \<open>except\<close> turns into an error result.
\<close>

definition execute_command ::
  "system \<Rightarrow> readings \<Rightarrow> command_filter \<Rightarrow> args \<Rightarrow> world \<Rightarrow> tool_result \<times> world" where
  "execute_command sys rd flt a w =
     (case arg_command a of
        None \<Rightarrow> (plain_result (failed_text ([CHR 0x27] @ ''command'' @ [CHR 0x27])) True, w)
      | Some command \<Rightarrow>
          (let force_execute = (case arg_force_execute a of None \<Rightarrow> False | Some b \<Rightarrow> b) in
           if \<not> force_execute \<and> fst (check_dangerous_command command)
           then (confirmation_result command (snd (check_dangerous_command command)), w)
           else if force_execute then run_command sys rd a command w
           else
             (case is_allowed flt command of
                (allowed, reason, matched_rule) \<Rightarrow>
                  if \<not> allowed then (plain_result (denied_text reason) True, w)
                  else run_command sys rd a command w)))"

section \<open>The dispatcher\<close>

text \<open>
  A JSON-RPC request object. \<open>None\<close> is what \<open>request.get\<close> returns: the key is absent
  (or null). An id is a number or a string. \<open>params\<close> is absent, an object with the
  keys \<open>name\<close> and \<open>arguments\<close>, or a value that is no object, on which \<open>params.get\<close>
  raises \<open>AttributeError\<close> with the given text.
\<close>

datatype json_id = IdNum int | IdStr string

datatype params = NoParams | ToolParams "string option" "args option" | BadParams string

record request =
  req_jsonrpc :: "string option"
  req_method :: "string option"
  req_params :: params
  req_id :: "json_id option"

text \<open>
  The response \<open>dict\<close>: always \<open>"jsonrpc": "2.0"\<close>, a result or an error, and the key
  \<open>id\<close> when \<open>resp_id\<close> is not \<open>None\<close>.
\<close>

datatype payload =
    InitializeResult
  | ToolsResult "string list"
  | PongResult int
  | ToolCallResult tool_result
  | ErrorPayload int string

record response =
  resp_payload :: payload
  resp_id :: "json_id option"

text \<open>The names of the tool catalogue \<open>self.tools\<close>.\<close>

definition tools :: "string list" where
  "tools = [''execute_command'', ''get_tools'']"

definition no_args :: args where
  "no_args =
     \<lparr> arg_command = None, arg_host = None, arg_username = None, arg_password = None,
       arg_key_file = None, arg_port = None, arg_session = None, arg_env = None,
       arg_cwd = None, arg_force_execute = None \<rparr>"

text \<open>How an f-string prints an optional string.\<close>

definition str_opt :: "string option \<Rightarrow> string" where
  "str_opt x = (case x of None \<Rightarrow> ''None'' | Some s \<Rightarrow> s)"

text \<open>\<open>int(time.time())\<close>: truncation towards zero.\<close>

definition py_int :: "real \<Rightarrow> int" where
  "py_int t = (if 0 \<le> t then \<lfloor>t\<rfloor> else \<lceil>t\<rceil>)"

text \<open>\<open>TerminalMCPServer._handle_call_tool\<close>; \<open>Inl\<close> is the text of an exception.\<close>

definition handle_call_tool ::
  "system \<Rightarrow> readings \<Rightarrow> command_filter \<Rightarrow> params \<Rightarrow> world \<Rightarrow> (string + payload) \<times> world" where
  "handle_call_tool sys rd flt ps w =
     (case ps of
        BadParams e \<Rightarrow> (Inl e, w)
      | NoParams \<Rightarrow> (Inr (ErrorPayload (- 32602) (''Unknown tool: '' @ str_opt None)), w)
      | ToolParams tool_name arguments \<Rightarrow>
          if tool_name = Some ''execute_command'' \<or> tool_name = Some ''execute'' then
            (let (result, w1) =
                   execute_command sys rd flt (case arguments of None \<Rightarrow> no_args | Some a \<Rightarrow> a) w
             in (Inr (ToolCallResult result), w1))
          else if tool_name = Some ''get_tools'' then (Inr (ToolsResult tools), w)
          else (Inr (ErrorPayload (- 32602) (''Unknown tool: '' @ str_opt tool_name)), w))"

text \<open>
  \<open>TerminalMCPServer.handle_request\<close>. The result \<open>None\<close> is Python's \<open>None\<close>: no
  response value.
\<close>

definition handle_request ::
  "system \<Rightarrow> readings \<Rightarrow> command_filter \<Rightarrow> request \<Rightarrow> world \<Rightarrow> response option \<times> world" where
  "handle_request sys rd flt rq w =
     (let method = req_method rq; request_id = req_id rq in
      if method = Some ''initialize'' then
        (Some \<lparr> resp_payload = InitializeResult, resp_id = request_id \<rparr>, w)
      else if method = Some ''tools/list'' then
        (Some \<lparr> resp_payload = ToolsResult tools, resp_id = request_id \<rparr>, w)
      else if method = Some ''tools/call'' then
        (case handle_call_tool sys rd flt (req_params rq) w of
           (Inr p, w1) \<Rightarrow> (Some \<lparr> resp_payload = p, resp_id = request_id \<rparr>, w1)
         | (Inl e, w1) \<Rightarrow>
             (Some \<lparr> resp_payload = ErrorPayload (- 32603) (''Internal error: '' @ e),
                     resp_id = request_id \<rparr>, w1))
      else if method = Some ''ping'' then
        (if request_id \<noteq> None
         then (Some \<lparr> resp_payload = PongResult (py_int (now_ping rd)), resp_id = request_id \<rparr>, w)
         else (None, w))
      else
        (Some \<lparr> resp_payload = ErrorPayload (- 32601) (''Method not found: '' @ str_opt method),
                resp_id = request_id \<rparr>, w))"

section \<open>StdioTransport\<close>

text \<open>
  One round of the loop of \<open>StdioTransport.start\<close> for a non-blank line. The line is
  given by what \<open>json.loads\<close> makes of it: \<open>Inl\<close> the text of the \<open>JSONDecodeError\<close>,
  \<open>Inr\<close> the request object. The result lists the lines printed to stdout.
\<close>

datatype stdout_line = ParseErrorLine string | ResponseLine response

definition stdio_round ::
  "system \<Rightarrow> readings \<Rightarrow> command_filter \<Rightarrow> string + request \<Rightarrow> world \<Rightarrow> stdout_line list \<times> world" where
  "stdio_round sys rd flt parsed w =
     (case parsed of
        Inl e \<Rightarrow> ([ParseErrorLine (''Parse error: '' @ e)], w)
      | Inr rq \<Rightarrow>
          (case handle_request sys rd flt rq w of
             (Some r, w1) \<Rightarrow> ([ResponseLine r], w1)
           | (None, w1) \<Rightarrow> ([], w1)))"

section \<open>SSETransport\<close>

text \<open>
  An open SSE channel is a \<open>StreamResponse\<close> object: a handle, and the attributes of
  its transport that \<open>_is_connection_alive\<close> reads (\<open>None\<close>: the attribute is missing;
  for \<open>transport\<close> itself also: it is \<open>None\<close>).
\<close>

record transport_state =
  is_closing :: "bool option"
  closed_flag :: "bool option"
  conn_lost :: "bool option"

record stream =
  handle :: nat
  transport :: "transport_state option"

text \<open>\<open>SSETransport._is_connection_alive\<close> for a response object that exists.\<close>

definition is_connection_alive :: "stream \<Rightarrow> bool" where
  "is_connection_alive response =
     (case transport response of
        None \<Rightarrow> True
      | Some t \<Rightarrow>
          if is_closing t = Some True then False
          else if closed_flag t = Some True then False
          else if conn_lost t = Some True then False
          else True)"

text \<open>
  What \<open>_send_sse_message\<close> does on a channel: it returns, or raises one of
  \<open>ConnectionError\<close>, \<open>OSError\<close>, \<open>RuntimeError\<close>, or raises another \<open>Exception\<close>; the
  string is \<open>str(e)\<close>.
\<close>

datatype write_outcome = Written | ConnectionFailure string | OtherFailure string

text \<open>
  The loop of \<open>_broadcast_message\<close> over the snapshot of the channels. It collects
  \<open>dead_streams\<close>, and two traces: the channels on which a write was attempted and
  those on which it succeeded.
\<close>

fun broadcast_loop ::
  "(nat \<Rightarrow> write_outcome) \<Rightarrow> (string \<times> stream) list \<Rightarrow> string list \<Rightarrow> string list \<Rightarrow> string list
     \<Rightarrow> string list \<times> string list \<times> string list" where
  "broadcast_loop send [] dead_streams attempted delivered = (dead_streams, attempted, delivered)"
| "broadcast_loop send ((stream_id, response) # rest) dead_streams attempted delivered =
     (if \<not> is_connection_alive response
      then broadcast_loop send rest (dead_streams @ [stream_id]) attempted delivered
      else
        (case send (handle response) of
           Written \<Rightarrow>
             broadcast_loop send rest dead_streams (attempted @ [stream_id]) (delivered @ [stream_id])
         | ConnectionFailure e \<Rightarrow>
             broadcast_loop send rest (dead_streams @ [stream_id]) (attempted @ [stream_id]) delivered
         | OtherFailure e \<Rightarrow>
             (let error_msg = lower e in
              if substr_in ''closing'' error_msg \<or> substr_in ''closed'' error_msg
                   \<or> substr_in ''write'' error_msg
              then broadcast_loop send rest (dead_streams @ [stream_id]) (attempted @ [stream_id])
                     delivered
              else broadcast_loop send rest dead_streams (attempted @ [stream_id]) delivered)))"

text \<open>The clean-up loop: each dead id still in the \<open>dict\<close> is deleted.\<close>

definition remove_dead :: "string list \<Rightarrow> (string \<times> stream) list \<Rightarrow> (string \<times> stream) list" where
  "remove_dead dead_streams active_streams =
     fold (\<lambda>stream_id active.
             if stream_id \<in> set (map fst active) then AList.delete stream_id active else active)
          dead_streams active_streams"

text \<open>
  \<open>SSETransport._broadcast_message\<close>: the channel set afterwards, the channels written
  to, and the channels that received the message.
\<close>

definition broadcast_message ::
  "(nat \<Rightarrow> write_outcome) \<Rightarrow> (string \<times> stream) list
     \<Rightarrow> (string \<times> stream) list \<times> string list \<times> string list" where
  "broadcast_message send active_streams =
     (if active_streams = [] then (active_streams, [], [])
      else
        (case broadcast_loop send active_streams [] [] [] of
           (dead_streams, attempted, delivered) \<Rightarrow>
             (remove_dead dead_streams active_streams, attempted, delivered)))"

text \<open>
  The body of a POST, by what the parsing at the head of \<open>_handle_mcp_message\<close> makes
  of it: not JSON, blank, JSON but no object, or a request object. For a value that is
  no object the \<open>except ValueError\<close> handler calls \<open>data.get\<close> on it, which raises
  out of the handler, and the web framework answers with status 500.
\<close>

datatype post_body = BadJson string | EmptyBody | NotObject | Object request

datatype http_body = ResponseBody response | ErrorBody int string "json_id option"

record http_response =
  status :: nat
  body :: "http_body option"

text \<open>
  \<open>SSETransport._handle_mcp_message\<close>: the HTTP response and the channel set
  afterwards. \<open>send\<close> gives, for a message, what writing it to a channel does.
\<close>

definition handle_mcp_message ::
  "system \<Rightarrow> readings \<Rightarrow> command_filter \<Rightarrow> (response \<Rightarrow> nat \<Rightarrow> write_outcome) \<Rightarrow> post_body
     \<Rightarrow> (string \<times> stream) list \<Rightarrow> world
     \<Rightarrow> http_response \<times> (string \<times> stream) list \<times> world" where
  "handle_mcp_message sys rd flt send posted active_streams w =
     (case posted of
        BadJson e \<Rightarrow>
          (\<lparr> status = 400, body = Some (ErrorBody (- 32700) (''Parse error: '' @ e) None) \<rparr>,
           active_streams, w)
      | EmptyBody \<Rightarrow>
          (\<lparr> status = 400,
             body = Some (ErrorBody (- 32600) ''Invalid Request: empty request body'' None) \<rparr>,
           active_streams, w)
      | NotObject \<Rightarrow> (\<lparr> status = 500, body = None \<rparr>, active_streams, w)
      | Object data \<Rightarrow>
          if req_jsonrpc data \<noteq> Some ''2.0'' then
            (\<lparr> status = 400,
               body = Some (ErrorBody (- 32600) ''Invalid Request: jsonrpc must be 2.0''
                              (req_id data)) \<rparr>,
             active_streams, w)
          else if req_method data = None then
            (\<lparr> status = 400,
               body = Some (ErrorBody (- 32600) ''Invalid Request: the method field is missing''
                              (req_id data)) \<rparr>,
             active_streams, w)
          else
            (case handle_request sys rd flt data w of
               (None, w1) \<Rightarrow> (\<lparr> status = 204, body = None \<rparr>, active_streams, w1)
             | (Some response_data, w1) \<Rightarrow>
                 (let response_data =
                        (if resp_id response_data = None \<and> req_id data \<noteq> None
                         then response_data\<lparr>resp_id := req_id data\<rparr> else response_data);
                      streams_after =
                        (if active_streams \<noteq> []
                         then fst (broadcast_message (send response_data) active_streams)
                         else active_streams)
                  in (\<lparr> status = 200, body = Some (ResponseBody response_data) \<rparr>,
                      streams_after, w1))))"

section \<open>Inputs of the examples\<close>

definition quiet_system :: system where
  "quiet_system =
     \<lparr> sys_ssh_available = True, sys_environ = [],
       sys_local = (\<lambda>command env cwd. Inr (''ok'', '''', Some 0)),
       sys_ssh_exec = (\<lambda>client command. Inr (''ok'', '''', 0)),
       sys_ssh_connect = (\<lambda>host_name user key_file password port. Inr ()),
       sys_ssh_active = (\<lambda>client. True),
       sys_ssh_close = (\<lambda>client. Inr ()),
       sys_format_2f = (\<lambda>t. ''0.00'') \<rparr>"

definition noon :: readings where
  "noon = \<lparr> now_session = 100, now_start = 100, now_end = 101, now_ping = 100 \<rparr>"

definition fresh_world :: world where
  "fresh_world =
     \<lparr> manager = SessionManager_init 1200, next_client = 0, executed = [],
       closed_after_failure = [] \<rparr>"

definition initialized_notification :: request where
  "initialized_notification =
     \<lparr> req_jsonrpc = Some ''2.0'', req_method = Some ''notifications/initialized'',
       req_params = NoParams, req_id = None \<rparr>"

definition ping_notification :: request where
  "ping_notification =
     \<lparr> req_jsonrpc = Some ''2.0'', req_method = Some ''ping'', req_params = NoParams,
       req_id = None \<rparr>"

definition ping_request :: request where
  "ping_request =
     \<lparr> req_jsonrpc = Some ''2.0'', req_method = Some ''ping'', req_params = NoParams,
       req_id = Some (IdNum 5) \<rparr>"

definition quoted_hash_command :: string where
  "quoted_hash_command = ''df '' @ dq @ ''#'' @ dq @ '' ; rm -rf /''"






definition rm_root_args :: args where
  "rm_root_args = no_args\<lparr>arg_command := Some ''rm -rf /''\<rparr>"




definition always_written :: "response \<Rightarrow> nat \<Rightarrow> write_outcome" where
  "always_written message h = Written"

text \<open>Three open channels; the write to the second one fails.\<close>

definition open_stream :: "nat \<Rightarrow> stream" where
  "open_stream h =
     \<lparr> handle = h,
       transport = Some \<lparr> is_closing = Some False, closed_flag = None, conn_lost = Some False \<rparr> \<rparr>"

definition three_streams :: "(string \<times> stream) list" where
  "three_streams = [(''a'', open_stream 0), (''b'', open_stream 1), (''c'', open_stream 2)]"

definition second_unexpected :: "nat \<Rightarrow> write_outcome" where
  "second_unexpected h = (if h = 1 then OtherFailure ''unexpected error'' else Written)"

definition second_reset :: "nat \<Rightarrow> write_outcome" where
  "second_reset h =
     (if h = 1 then ConnectionFailure ''Cannot write to closing transport'' else Written)"

text \<open>
  The channels \<open>_broadcast_message\<close> marks as dead: found not alive, or the write raised
  a connection error, or it raised another exception whose lower-cased text holds
  \<open>closing\<close>, \<open>closed\<close> or \<open>write\<close>.
\<close>

definition marked_dead :: "(nat \<Rightarrow> write_outcome) \<Rightarrow> string \<times> stream \<Rightarrow> bool" where
  "marked_dead send entry =
     (\<not> is_connection_alive (snd entry)
      \<or> (case send (handle (snd entry)) of
            Written \<Rightarrow> False
          | ConnectionFailure e \<Rightarrow> True
          | OtherFailure e \<Rightarrow>
              substr_in ''closing'' (lower e) \<or> substr_in ''closed'' (lower e)
              \<or> substr_in ''write'' (lower e)))"

definition write_attempted :: "string \<times> stream \<Rightarrow> bool" where
  "write_attempted entry = is_connection_alive (snd entry)"

definition write_succeeded :: "(nat \<Rightarrow> write_outcome) \<Rightarrow> string \<times> stream \<Rightarrow> bool" where
  "write_succeeded send entry =
     (is_connection_alive (snd entry) \<and> send (handle (snd entry)) = Written)"

definition write_failed :: "(nat \<Rightarrow> write_outcome) \<Rightarrow> string \<times> stream \<Rightarrow> bool" where
  "write_failed send entry =
     (is_connection_alive (snd entry) \<and> send (handle (snd entry)) \<noteq> Written)"

text \<open>
  A manager with two sessions: \<open>s1\<close> holds the SSH client 7 and was last used at time
  0, \<open>s2\<close> holds no client and was last used at time 1000. \<open>close_raises\<close> is a
  \<open>close()\<close> that always raises.
\<close>

definition two_sessions :: session_manager where
  "two_sessions =
     \<lparr> sessions =
         [(''s1'', \<lparr> oid = 0, host = Some ''db1'', username = Some ''ops'', ssh_client = Some 7,
                    created = 0, last_used = 0, local_env = [] \<rparr>),
          (''s2'', \<lparr> oid = 1, host = None, username = None, ssh_client = None,
                    created = 900, last_used = 1000, local_env = [(''LANG'', ''C'')] \<rparr>)],
       session_timeout = 1200, next_oid = 2, close_calls = [] \<rparr>"

definition close_raises :: "nat \<Rightarrow> string + unit" where
  "close_raises client = Inl ''socket is closed''"

section \<open>Lemmas on strings and the normalization\<close>




lemma startswith_iff: "startswith s p = (\<exists>suf. s = p @ suf)"
  unfolding startswith_def
  by (metis append_eq_conv_conj append_take_drop_id)

lemma substr_in_iff: "substr_in p s = (\<exists>pre suf. s = pre @ p @ suf)"
proof (induction s)
  case Nil
  show ?case by auto
next
  case (Cons c cs)
  show ?case
  proof
    assume "substr_in p (c # cs)"
    then consider "startswith (c # cs) p" | "substr_in p cs" by auto
    then show "\<exists>pre suf. c # cs = pre @ p @ suf"
    proof cases
      case 1
      then obtain suf where "c # cs = p @ suf" by (auto simp: startswith_iff)
      then have "c # cs = [] @ p @ suf" by simp
      then show ?thesis by blast
    next
      case 2
      then obtain pre suf where "cs = pre @ p @ suf" using Cons.IH by auto
      then have "c # cs = (c # pre) @ p @ suf" by simp
      then show ?thesis by blast
    qed
  next
    assume "\<exists>pre suf. c # cs = pre @ p @ suf"
    then obtain pre suf where e: "c # cs = pre @ p @ suf" by blast
    show "substr_in p (c # cs)"
    proof (cases pre)
      case Nil
      then have "startswith (c # cs) p" using e by (simp add: startswith_iff)
      then show ?thesis by simp
    next
      case (Cons a pre')
      then have "cs = pre' @ p @ suf" using e by simp
      then show ?thesis using Cons.IH by auto
    qed
  qed
qed

lemma lstrip_head: "lstrip s = [] \<or> \<not> is_space (hd (lstrip s))"
  unfolding lstrip_def by (metis hd_dropWhile)

lemma rstrip_head: "s = [] \<or> \<not> is_space (hd s) \<Longrightarrow> rstrip s = [] \<or> \<not> is_space (hd (rstrip s))"
proof (cases s)
  case Nil
  then show ?thesis by (simp add: rstrip_def)
next
  case (Cons a as)
  assume "s = [] \<or> \<not> is_space (hd s)"
  with Cons have a: "\<not> is_space a" by simp
  have "dropWhile is_space (rev as @ [a]) = dropWhile is_space (rev as) @ [a] \<or> dropWhile is_space (rev as @ [a]) = [a]"
    using a by (simp add: dropWhile_append)
  then show ?thesis using a Cons by (auto simp: rstrip_def)
qed

lemma strip_head: "strip s = [] \<or> \<not> is_space (hd (strip s))"
  unfolding strip_def using rstrip_head [OF lstrip_head] .


lemma extract_stages:
  "extract_main_command c =
     strip (let d = (if drops_assignment (strip c) then split_ws1 (strip c) ! 1 else strip c)
            in if CHR ''#'' \<in> set d then strip (before_hash d) else d)"
  by (simp add: extract_main_command_def drops_assignment_def Let_def)

lemma hash_not_space: "\<not> is_space CHR ''#''"
  by (simp add: is_space_def)

lemma lstrip_idem: "lstrip (lstrip s) = lstrip s"
  by (simp add: lstrip_def)

lemma rstrip_idem: "rstrip (rstrip s) = rstrip s"
  by (simp add: rstrip_def)

lemma lstrip_id: "s = [] \<or> \<not> is_space (hd s) \<Longrightarrow> lstrip s = s"
  by (cases s) (auto simp: lstrip_def)

lemma strip_idem: "strip (strip s) = strip s"
proof -
  have "lstrip (strip s) = strip s" by (rule lstrip_id [OF strip_head])
  then show ?thesis by (simp add: strip_def [of "strip s"]) (simp add: strip_def rstrip_idem)
qed

lemma strip_id_head: "s = [] \<or> \<not> is_space (hd s) \<Longrightarrow> strip s = rstrip s"
  by (simp add: strip_def lstrip_id)

lemma rstrip_append: "\<exists>x\<in>set b. \<not> is_space x \<Longrightarrow> rstrip (a @ b) = a @ rstrip b"
  by (auto simp: rstrip_def dropWhile_append)

lemma strip_rstrip: "strip (rstrip s) = strip s"
proof -
  have "rstrip (lstrip s) = [] \<or> \<not> is_space (hd (rstrip (lstrip s)))"
    using strip_head [of s] by (simp add: strip_def)
  have comm: "lstrip (rstrip s) = rstrip (lstrip s)"
  proof (cases "\<forall>x\<in>set s. is_space x")
    case True
    then have e: "lstrip s = []" "rstrip s = []" by (auto simp: lstrip_def rstrip_def)
    have "lstrip [] = []" "rstrip [] = []" by (simp_all add: lstrip_def rstrip_def)
    then show ?thesis by (simp only: e)
  next
    case False
    have "dropWhile is_space s \<noteq> []" using False by (simp add: dropWhile_eq_Nil_conv)
    obtain a b where s: "s = a @ b" and a: "\<forall>x\<in>set a. is_space x" and b: "b = dropWhile is_space s"
      using takeWhile_dropWhile_id [of is_space s] by (metis set_takeWhileD)
    have bne: "b \<noteq> []" using b \<open>dropWhile is_space s \<noteq> []\<close> by simp
    have hb: "\<not> is_space (hd b)" using b bne by (metis hd_dropWhile)
    have nb: "\<not> (\<forall>x\<in>set (rev b). is_space x)" using hb bne by (metis hd_in_set set_rev)
    have "rstrip s = a @ rstrip b"
      unfolding s using nb by (intro rstrip_append) auto
    moreover have "rstrip b \<noteq> []" using nb by (simp add: rstrip_def dropWhile_eq_Nil_conv)
    moreover have "\<not> is_space (hd (rstrip b))"
      using rstrip_head [of b] hb \<open>rstrip b \<noteq> []\<close> by simp
    ultimately have "lstrip (rstrip s) = rstrip b"
      using a by (cases "rstrip b") (auto simp: lstrip_def dropWhile_append)
    moreover have "lstrip s = b" by (simp add: lstrip_def b)
    ultimately show ?thesis by simp
  qed
  show ?thesis by (simp add: strip_def comm rstrip_idem)
qed

lemma strip_lstrip: "strip (lstrip s) = strip s"
  by (simp add: strip_def lstrip_idem)

lemma before_hash_split:
  "CHR ''#'' \<in> set c \<Longrightarrow> \<exists>b. c = before_hash c @ CHR ''#'' # b"
proof -
  assume h: "CHR ''#'' \<in> set c"
  have "dropWhile (\<lambda>x. x \<noteq> CHR ''#'') c \<noteq> []"
    using h by (auto simp: dropWhile_eq_Nil_conv)
  then obtain y b where d: "dropWhile (\<lambda>x. x \<noteq> CHR ''#'') c = y # b"
    by (cases "dropWhile (\<lambda>x. x \<noteq> CHR ''#'') c") auto
  then have "y = CHR ''#''" using hd_dropWhile [of "\<lambda>x. x \<noteq> CHR ''#''" c] by auto
  then show ?thesis
    unfolding before_hash_def
    using takeWhile_dropWhile_id [of "\<lambda>x. x \<noteq> CHR ''#''" c] d by metis
qed

lemma before_hash_append:
  "CHR ''#'' \<notin> set a \<Longrightarrow> before_hash (a @ CHR ''#'' # b) = a"
  by (simp add: before_hash_def takeWhile_append1 [where x = "CHR ''#''"] takeWhile_append)

lemma before_hash_append2:
  "CHR ''#'' \<notin> set a \<Longrightarrow> before_hash (a @ b) = a @ before_hash b"
  by (simp add: before_hash_def takeWhile_append)

lemma before_hash_no_hash: "CHR ''#'' \<notin> set (before_hash c)"
  unfolding before_hash_def by (metis (mono_tags, lifting) set_takeWhileD)

lemma before_hash_id: "CHR ''#'' \<notin> set c \<Longrightarrow> before_hash c = c"
  by (auto simp: before_hash_def takeWhile_eq_all_conv)

lemma rstrip_Cons_nonspace: "\<not> is_space x \<Longrightarrow> rstrip (x # b) = x # rstrip b"
  by (auto simp: rstrip_def dropWhile_append dropWhile_eq_Nil_conv)

lemma rstrip_hash: "\<exists>b'. rstrip (a @ CHR ''#'' # b) = a @ CHR ''#'' # b'"
proof -
  have "rstrip (a @ CHR ''#'' # b) = a @ rstrip (CHR ''#'' # b)"
    using hash_not_space by (intro rstrip_append) auto
  moreover have "\<exists>b'. rstrip (CHR ''#'' # b) = CHR ''#'' # b'"
    using rstrip_Cons_nonspace [OF hash_not_space] by blast
  ultimately show ?thesis by auto
qed

lemma lstrip_hash: "lstrip (a @ CHR ''#'' # b) = lstrip a @ CHR ''#'' # b"
  using hash_not_space by (simp add: lstrip_def dropWhile_append)

lemma set_lstrip: "set (lstrip a) \<subseteq> set a"
  unfolding lstrip_def by (metis set_dropWhileD subsetI)

lemma set_rstrip: "set (rstrip a) \<subseteq> set a"
  unfolding rstrip_def by (metis set_dropWhileD set_rev subsetI)

lemma set_strip: "set (strip a) \<subseteq> set a"
  unfolding strip_def using set_lstrip set_rstrip by blast

lemma before_hash_strip:
  assumes "CHR ''#'' \<in> set c"
  shows "before_hash (strip c) = lstrip (before_hash c)"
    and "CHR ''#'' \<in> set (strip c)"
proof -
  obtain b where c: "c = before_hash c @ CHR ''#'' # b"
    using before_hash_split [OF assms] by blast
  have "lstrip c = lstrip (before_hash c) @ CHR ''#'' # b"
    using lstrip_hash [of "before_hash c" b] c by simp
  then obtain b' where s: "strip c = lstrip (before_hash c) @ CHR ''#'' # b'"
    using rstrip_hash [of "lstrip (before_hash c)" b] by (auto simp: strip_def)
  have "CHR ''#'' \<notin> set (lstrip (before_hash c))"
    using before_hash_no_hash set_lstrip by blast
  then show "before_hash (strip c) = lstrip (before_hash c)"
    by (simp add: s before_hash_append)
  show "CHR ''#'' \<in> set (strip c)" by (simp add: s)
qed

lemma split_ws1_unfold:
  "split_ws1 u =
     (if dropWhile is_space (dropWhile (\<lambda>c. \<not> is_space c) (dropWhile is_space u)) = []
      then (if dropWhile is_space u = [] then []
            else [takeWhile (\<lambda>c. \<not> is_space c) (dropWhile is_space u)])
      else [takeWhile (\<lambda>c. \<not> is_space c) (dropWhile is_space u),
            dropWhile is_space (dropWhile (\<lambda>c. \<not> is_space c) (dropWhile is_space u))])"
proof -
  define t where "t = dropWhile is_space u"
  define r0 where "r0 = dropWhile is_space (dropWhile (\<lambda>c. \<not> is_space c) t)"
  have e: "split_ws1 u = (if t = [] then [] else if r0 = [] then [takeWhile (\<lambda>c. \<not> is_space c) t]
                          else [takeWhile (\<lambda>c. \<not> is_space c) t, r0])"
    unfolding split_ws1_def Let_def t_def r0_def by (rule refl)
  have "t = [] \<Longrightarrow> r0 = []" by (simp add: r0_def)
  then have "split_ws1 u = (if r0 = [] then (if t = [] then [] else [takeWhile (\<lambda>c. \<not> is_space c) t])
                          else [takeWhile (\<lambda>c. \<not> is_space c) t, r0])"
    unfolding e by (cases "t = []"; cases "r0 = []") simp_all
  then show ?thesis unfolding r0_def t_def .
qed

lemma split_ws1_iff2:
  "(split_ws1 u = [tok, r]) =
     (r \<noteq> [] \<and> tok = takeWhile (\<lambda>c. \<not> is_space c) (dropWhile is_space u)
      \<and> r = dropWhile is_space (dropWhile (\<lambda>c. \<not> is_space c) (dropWhile is_space u)))"
proof -
  define t where "t = dropWhile is_space u"
  define r0 where "r0 = dropWhile is_space (dropWhile (\<lambda>c. \<not> is_space c) t)"
  have "split_ws1 u = (if r0 = [] then (if t = [] then [] else [takeWhile (\<lambda>c. \<not> is_space c) t])
                          else [takeWhile (\<lambda>c. \<not> is_space c) t, r0])"
    unfolding r0_def t_def by (rule split_ws1_unfold)
  then have "(split_ws1 u = [tok, r]) = (r \<noteq> [] \<and> tok = takeWhile (\<lambda>c. \<not> is_space c) t \<and> r = r0)"
    by (cases "t = []"; cases "r0 = []") auto
  then show ?thesis unfolding r0_def t_def .
qed

lemma split_ws1_two:
  assumes "length (split_ws1 s) > 1"
  shows "split_ws1 s = [split_ws1 s ! 0, split_ws1 s ! 1]"
proof -
  define t where "t = dropWhile is_space s"
  define r0 where "r0 = dropWhile is_space (dropWhile (\<lambda>c. \<not> is_space c) t)"
  have e: "split_ws1 s = (if r0 = [] then (if t = [] then [] else [takeWhile (\<lambda>c. \<not> is_space c) t])
                          else [takeWhile (\<lambda>c. \<not> is_space c) t, r0])"
    unfolding r0_def t_def by (rule split_ws1_unfold)
  show ?thesis using assms unfolding e by (cases "t = []"; cases "r0 = []") simp_all
qed

lemma split_ws1_append:
  assumes "split_ws1 u = [tok, r]"
  shows "split_ws1 (u @ x) = [tok, r @ x]"
proof -
  define t where "t = dropWhile is_space u"
  have tok: "tok = takeWhile (\<lambda>c. \<not> is_space c) t"
    and r: "r = dropWhile is_space (dropWhile (\<lambda>c. \<not> is_space c) t)" and rne: "r \<noteq> []"
    using assms unfolding split_ws1_iff2 t_def by blast+
  have t: "t \<noteq> []"
  proof
    assume "t = []"
    then have "r = []" unfolding r by simp
    with rne show False by simp
  qed
  have 1: "dropWhile is_space (u @ x) = t @ x"
    using t by (auto simp: t_def dropWhile_append dropWhile_eq_Nil_conv)
  have d: "dropWhile (\<lambda>c. \<not> is_space c) t \<noteq> []"
  proof
    assume a: "dropWhile (\<lambda>c. \<not> is_space c) t = []"
    have "r = []" unfolding r a by simp
    with rne show False by simp
  qed
  then have ex: "\<not> (\<forall>c\<in>set t. \<not> is_space c)" by (simp add: dropWhile_eq_Nil_conv)
  obtain c0 where c0: "c0 \<in> set t" "is_space c0" using ex by auto
  have 2: "takeWhile (\<lambda>c. \<not> is_space c) (t @ x) = tok"
    unfolding tok by (rule takeWhile_append1 [OF c0(1)]) (simp add: c0(2))
  have 3: "dropWhile (\<lambda>c. \<not> is_space c) (t @ x) = dropWhile (\<lambda>c. \<not> is_space c) t @ x"
    by (rule dropWhile_append1 [OF c0(1)]) (simp add: c0(2))
  have "dropWhile is_space (dropWhile (\<lambda>c. \<not> is_space c) t) \<noteq> []"
    using r rne by simp
  then obtain c1 where c1: "c1 \<in> set (dropWhile (\<lambda>c. \<not> is_space c) t)" "\<not> is_space c1"
    unfolding dropWhile_eq_Nil_conv by blast
  have 4: "dropWhile is_space (dropWhile (\<lambda>c. \<not> is_space c) t @ x) = r @ x"
    unfolding r by (rule dropWhile_append1 [OF c1(1)]) (simp add: c1(2))
  show ?thesis
    unfolding split_ws1_iff2 1 2 3 4 using rne by simp
qed

lemma split_ws1_decomp:
  assumes "split_ws1 s = [tok, r]" and "s = [] \<or> \<not> is_space (hd s)"
  shows "\<exists>ws. s = tok @ ws @ r \<and> (\<forall>x\<in>set tok. \<not> is_space x) \<and> tok \<noteq> []
            \<and> (\<forall>x\<in>set ws. is_space x) \<and> ws \<noteq> [] \<and> r \<noteq> [] \<and> \<not> is_space (hd r)"
proof -
  have t: "dropWhile is_space s = s" using assms(2) by (cases s) auto
  have tok: "tok = takeWhile (\<lambda>c. \<not> is_space c) s"
    and r: "r = dropWhile is_space (dropWhile (\<lambda>c. \<not> is_space c) s)" and rne: "r \<noteq> []"
    using assms(1) unfolding split_ws1_iff2 t by blast+
  have sne: "s \<noteq> []"
  proof
    assume "s = []"
    then have "r = []" unfolding r by simp
    with rne show False by simp
  qed
  define ws where "ws = takeWhile is_space (dropWhile (\<lambda>c. \<not> is_space c) s)"
  have "s = tok @ dropWhile (\<lambda>c. \<not> is_space c) s" by (simp add: tok)
  moreover have "dropWhile (\<lambda>c. \<not> is_space c) s = ws @ r" by (simp add: ws_def r)
  ultimately have s: "s = tok @ ws @ r" by simp
  have 1: "\<forall>x\<in>set tok. \<not> is_space x" unfolding tok by (metis (mono_tags, lifting) set_takeWhileD)
  have 2: "tok \<noteq> []" using sne assms(2) by (cases s) (auto simp: tok)
  have 3: "\<forall>x\<in>set ws. is_space x" unfolding ws_def by (metis set_takeWhileD)
  have d: "dropWhile (\<lambda>c. \<not> is_space c) s \<noteq> []"
  proof
    assume a: "dropWhile (\<lambda>c. \<not> is_space c) s = []"
    have "r = []" unfolding r a by simp
    with rne show False by simp
  qed
  then have "is_space (hd (dropWhile (\<lambda>c. \<not> is_space c) s))"
    using hd_dropWhile [of "\<lambda>c. \<not> is_space c" s] by simp
  then have 4: "ws \<noteq> []" using d by (cases "dropWhile (\<lambda>c. \<not> is_space c) s") (auto simp: ws_def)
  have 5: "\<not> is_space (hd r)" using rne unfolding r by (metis hd_dropWhile)
  show ?thesis using s 1 2 3 4 5 rne by blast
qed

lemma split_ws1_build:
  assumes "\<forall>x\<in>set tok. \<not> is_space x" "tok \<noteq> []" "\<forall>x\<in>set ws. is_space x" "ws \<noteq> []"
    "r \<noteq> []" "\<not> is_space (hd r)"
  shows "split_ws1 (tok @ ws @ r) = [tok, r]"
proof -
  have 1: "dropWhile is_space (tok @ ws @ r) = tok @ ws @ r"
    using assms(1,2) by (cases tok) auto
  have h: "is_space (hd ws)" using assms(3,4) by (cases ws) auto
  have 2: "takeWhile (\<lambda>c. \<not> is_space c) (tok @ ws @ r) = tok"
    using assms(1,3,4) h by (cases ws) (auto simp: takeWhile_append)
  have 3: "dropWhile (\<lambda>c. \<not> is_space c) (tok @ ws @ r) = ws @ r"
    using assms(1,3,4) h by (cases ws) (auto simp: dropWhile_append)
  have 4: "dropWhile is_space (ws @ r) = r"
    using assms(3,5,6) by (cases r) (auto simp: dropWhile_append)
  show ?thesis unfolding split_ws1_iff2 1 2 3 4 using assms(5) by simp
qed

lemma rstrip_decomp: "\<exists>w. a = rstrip a @ w"
proof -
  have "rev (takeWhile is_space (rev a) @ dropWhile is_space (rev a)) = a"
    by (simp only: takeWhile_dropWhile_id rev_rev_ident)
  then have "a = rstrip a @ rev (takeWhile is_space (rev a))"
    by (simp only: rev_append rstrip_def)
  then show ?thesis by blast
qed

lemma startswith_eq: "startswith s ''='' = (s \<noteq> [] \<and> hd s = CHR ''='')"
  by (cases s) (auto simp: startswith_def)

lemma startswith_hash: "startswith s ''#'' = (s \<noteq> [] \<and> hd s = CHR ''#'')"
  by (cases s) (auto simp: startswith_def)

lemma drops_assignment_append:
  assumes "drops_assignment u"
  shows "drops_assignment (u @ x)"
proof -
  have l: "length (split_ws1 u) > 1" using assms by (simp add: drops_assignment_def)
  obtain tok r where sp: "split_ws1 u = [tok, r]" using split_ws1_two [OF l] by blast
  have sp': "split_ws1 (u @ x) = [tok, r @ x]" by (rule split_ws1_append [OF sp])
  have "u \<noteq> []" using assms by (auto simp: drops_assignment_def)
  then show ?thesis
    using assms by (auto simp: drops_assignment_def sp sp' startswith_eq)
qed

lemma extract_no_hash_no_drop:
  "CHR ''#'' \<notin> set (strip p) \<Longrightarrow> \<not> drops_assignment (strip p) \<Longrightarrow> extract_main_command p = strip p"
  by (simp add: extract_stages strip_idem)

lemma extract_before_hash_A:
  assumes h: "CHR ''#'' \<in> set c" and nd: "\<not> drops_assignment (strip c)"
  shows "extract_main_command c = extract_main_command (before_hash c)"
proof -
  have hs: "CHR ''#'' \<in> set (strip c)" by (rule before_hash_strip(2) [OF h])
  have bs: "before_hash (strip c) = lstrip (before_hash c)" by (rule before_hash_strip(1) [OF h])
  have L: "extract_main_command c = strip (before_hash c)"
    using nd hs by (simp add: extract_stages strip_idem bs strip_lstrip)
  have nh: "CHR ''#'' \<notin> set (strip (before_hash c))"
    using before_hash_no_hash set_strip by blast
  obtain b where s: "strip c = before_hash (strip c) @ CHR ''#'' # b"
    using before_hash_split [OF hs] by blast
  obtain w where w: "lstrip (before_hash c) = rstrip (lstrip (before_hash c)) @ w"
    using rstrip_decomp by blast
  have 1: "strip c = lstrip (before_hash c) @ CHR ''#'' # b"
    using s bs by simp
  have 3: "strip (before_hash c) = rstrip (lstrip (before_hash c))"
    by (simp add: strip_def)
  have "strip c = strip (before_hash c) @ (w @ CHR ''#'' # b)"
    using 1 w 3 by (metis append.assoc)
  then have "\<not> drops_assignment (strip (before_hash c))"
    using nd drops_assignment_append [of "strip (before_hash c)" "w @ CHR ''#'' # b"] by auto
  then have "extract_main_command (before_hash c) = strip (before_hash c)"
    using nh by (rule extract_no_hash_no_drop [rotated])
  then show ?thesis using L by simp
qed

lemma extract_before_hash_B:
  assumes h: "CHR ''#'' \<in> set c" and d: "drops_assignment (strip c)"
    and t0: "CHR ''#'' \<notin> set (split_ws1 (strip c) ! 0)"
    and t1: "\<not> startswith (split_ws1 (strip c) ! 1) ''#''"
  shows "extract_main_command c = extract_main_command (before_hash c)"
proof -
  define tok where "tok = split_ws1 (strip c) ! 0"
  define r where "r = split_ws1 (strip c) ! 1"
  have hs: "CHR ''#'' \<in> set (strip c)" by (rule before_hash_strip(2) [OF h])
  have bs: "before_hash (strip c) = lstrip (before_hash c)" by (rule before_hash_strip(1) [OF h])
  have sp: "split_ws1 (strip c) = [tok, r]"
    using d split_ws1_two [of "strip c"] by (simp add: drops_assignment_def tok_def r_def)
  obtain ws where s: "strip c = tok @ ws @ r" and tk: "\<forall>x\<in>set tok. \<not> is_space x" and tne: "tok \<noteq> []"
    and wsp: "\<forall>x\<in>set ws. is_space x" and wne: "ws \<noteq> []" and rne: "r \<noteq> []" and hr: "\<not> is_space (hd r)"
    using split_ws1_decomp [OF sp strip_head] by blast
  have nh: "CHR ''#'' \<notin> set (tok @ ws)" using t0 wsp hash_not_space by (auto simp: tok_def)
  have hr2: "CHR ''#'' \<in> set r" using hs nh by (auto simp: s)
  have L: "extract_main_command c = strip (before_hash r)"
    using d hr2 by (simp add: extract_stages strip_idem r_def)
  have hdr: "hd r \<noteq> CHR ''#''" using t1 rne by (simp add: startswith_hash r_def)
  define br where "br = before_hash r"
  have brne: "br \<noteq> []" and hbr: "hd br = hd r"
    using rne hdr by (cases r; simp add: br_def before_hash_def)+
  have bh: "before_hash (strip c) = tok @ ws @ br"
    using nh before_hash_append2 [of "tok @ ws" r] by (simp add: s br_def)
  have exns: "\<exists>x\<in>set br. \<not> is_space x" using brne hbr hr by (metis hd_in_set)
  have "strip (before_hash c) = rstrip (tok @ ws @ br)"
    using bh bs by (simp add: strip_def lstrip_idem)
  also have "\<dots> = tok @ ws @ rstrip br"
    using rstrip_append [OF exns, of "tok @ ws"] by simp
  finally have sb: "strip (before_hash c) = tok @ ws @ rstrip br" .
  have rbne: "rstrip br \<noteq> []" using exns by (auto simp: rstrip_def dropWhile_eq_Nil_conv)
  have hrb: "\<not> is_space (hd (rstrip br))"
    using rstrip_head [of br] hbr hr rbne by simp
  have sp2: "split_ws1 (strip (before_hash c)) = [tok, rstrip br]"
    unfolding sb by (rule split_ws1_build [OF tk tne wsp wne rbne hrb])
  have eqt: "CHR ''='' \<in> set tok" and nst: "\<not> startswith tok ''=''"
    using d by (simp_all add: drops_assignment_def tok_def)
  have d2: "drops_assignment (strip (before_hash c))"
    unfolding drops_assignment_def sp2 using eqt nst tne by (auto simp: sb startswith_eq)
  have nh2: "CHR ''#'' \<notin> set (rstrip br)"
    using before_hash_no_hash [of r] set_rstrip [of br] by (auto simp: br_def)
  have "extract_main_command (before_hash c) = strip (rstrip br)"
    using d2 nh2 by (simp add: extract_stages [of "before_hash c"] sp2)
  then show ?thesis using L by (simp add: strip_rstrip br_def)
qed

lemma extract_before_hash:
  assumes "CHR ''#'' \<in> set c" and "hash_outside_assignment c"
  shows "extract_main_command c = extract_main_command (before_hash c)"
proof (cases "drops_assignment (strip c)")
  case True
  then show ?thesis
    using assms extract_before_hash_B by (simp add: hash_outside_assignment_def)
next
  case False
  then show ?thesis using assms(1) by (rule extract_before_hash_A [rotated])
qed





section \<open>Claims on the policy engine\<close>







text \<open>
  C10, as the claim states it, fails: in \<open>a#b=c rm -rf /\<close> the first token holds the
  \<open>#\<close> and an \<open>=\<close>, so it is dropped as an assignment before comments are cut. The
  command is classified and evaluated as \<open>rm -rf /\<close>, its prefix before the \<open>#\<close> as
  \<open>a\<close>.
\<close>

theorem comment_truncation_counterexample:
  "CHR ''#'' \<in> set ''a#b=c rm -rf /''
   \<and> before_hash ''a#b=c rm -rf /'' = ''a''
   \<and> check_dangerous_command ''a#b=c rm -rf /'' = (True, deletion_category)
   \<and> check_dangerous_command (before_hash ''a#b=c rm -rf /'') = (False, '''')
   \<and> \<not> fst (is_allowed open_filter ''a#b=c rm -rf /'')
   \<and> fst (is_allowed open_filter (before_hash ''a#b=c rm -rf /''))"
proof -
  have e1: "extract_main_command ''a#b=c rm -rf /'' = ''rm -rf /''" by code_simp
  have b: "before_hash ''a#b=c rm -rf /'' = ''a''" by code_simp
  have e2: "extract_main_command ''a'' = ''a''" by code_simp
  have 1: "check_dangerous_command ''a#b=c rm -rf /'' = (True, deletion_category)" by code_simp
  have 2: "check_dangerous_command ''a'' = (False, '''')" by code_simp
  have 3: "\<not> fst (is_allowed open_filter ''a#b=c rm -rf /'')"
    by (simp add: is_allowed_def e1 open_filter_def literal_regex_def startswith_def)
  have 4: "fst (is_allowed open_filter ''a'')"
    by (simp add: is_allowed_def e2 open_filter_def literal_regex_def startswith_def)
  show ?thesis using 1 2 3 4 by (simp add: b)
qed

text \<open>
  C10, amended. For every command that contains \<open>#\<close>, provided the \<open>#\<close> lies outside a
  dropped assignment token (where normalization drops the first token as a variable
  assignment, that token holds no \<open>#\<close> and the text after it does not begin with
  \<open>#\<close>), the normalized text, \<open>check_dangerous_command\<close> and \<open>is_allowed\<close> are the same
  as on the prefix before the first \<open>#\<close>. The cut ignores quoting: the command
  \<open>df "#" ; rm -rf /\<close> normalizes to \<open>df "\<close>, needs no confirmation and is allowed by a
  policy whose deny rule \<open>rm -rf\<close> matches the full text of the command.
\<close>

theorem comment_truncation:
  "(CHR ''#'' \<in> set c \<and> hash_outside_assignment c \<longrightarrow>
      extract_main_command c = extract_main_command (before_hash c)
      \<and> check_dangerous_command c = check_dangerous_command (before_hash c)
      \<and> is_allowed flt c = is_allowed flt (before_hash c))
   \<and> CHR ''#'' \<in> set quoted_hash_command
   \<and> extract_main_command quoted_hash_command = ''df '' @ dq
   \<and> check_dangerous_command quoted_hash_command = (False, '''')
   \<and> is_allowed example_filter quoted_hash_command = (True, reason_whitelisted, None)
   \<and> deny_rule_matches quoted_hash_command (''rm -rf'', literal_regex ''rm -rf'')"
proof (intro conjI impI)
  assume a: "CHR ''#'' \<in> set c \<and> hash_outside_assignment c"
  then show e: "extract_main_command c = extract_main_command (before_hash c)"
    using extract_before_hash by blast
  show "check_dangerous_command c = check_dangerous_command (before_hash c)"
    by (simp add: check_dangerous_command_def e)
  show "is_allowed flt c = is_allowed flt (before_hash c)"
    by (simp add: is_allowed_def e)
next
  show "CHR ''#'' \<in> set quoted_hash_command" by (simp add: quoted_hash_command_def)
  show x: "extract_main_command quoted_hash_command = ''df '' @ dq" by code_simp
  show "check_dangerous_command quoted_hash_command = (False, '''')" by code_simp
  show "is_allowed example_filter quoted_hash_command = (True, reason_whitelisted, None)"
    by (simp add: is_allowed_def x example_filter_def literal_regex_def anchored_regex_def
        startswith_def dq_def)
  have "substr_in ''rm -rf'' quoted_hash_command" by code_simp
  moreover have "\<not> startswith quoted_hash_command ''rm -rf''" by code_simp
  moreover have "\<not> startswith ''rm -rf'' ''^''" by code_simp
  ultimately show "deny_rule_matches quoted_hash_command (''rm -rf'', literal_regex ''rm -rf'')"
    by (simp add: deny_rule_matches_def literal_regex_def)
qed

theorem comment_truncation_witness:
  "CHR ''#'' \<in> set ''A=1 rm -rf /srv # clean up''
   \<and> drops_assignment (strip ''A=1 rm -rf /srv # clean up'')
   \<and> hash_outside_assignment ''A=1 rm -rf /srv # clean up''
   \<and> before_hash ''A=1 rm -rf /srv # clean up'' = ''A=1 rm -rf /srv ''
   \<and> check_dangerous_command ''A=1 rm -rf /srv # clean up''
       = check_dangerous_command ''A=1 rm -rf /srv ''
   \<and> is_allowed open_filter ''A=1 rm -rf /srv # clean up''
       = is_allowed open_filter ''A=1 rm -rf /srv ''"
proof -
  have h: "CHR ''#'' \<in> set ''A=1 rm -rf /srv # clean up''" by simp
  have o: "hash_outside_assignment ''A=1 rm -rf /srv # clean up''" by code_simp
  have d: "drops_assignment (strip ''A=1 rm -rf /srv # clean up'')" by code_simp
  have b: "before_hash ''A=1 rm -rf /srv # clean up'' = ''A=1 rm -rf /srv ''" by code_simp
  show ?thesis
    using comment_truncation [of "''A=1 rm -rf /srv # clean up''" open_filter] h o d
    by (simp add: b)
qed
section \<open>Claims on the executors and the tool\<close>


lemma warning_msg_parts:
  "substr_in ''Dangerous command warning'' (warning_msg command danger_type)"
  "substr_in command (warning_msg command danger_type)"
  "substr_in ''force_execute=true'' (warning_msg command danger_type)"
proof -
  show "substr_in ''Dangerous command warning'' (warning_msg command danger_type)"
    unfolding substr_in_iff warning_msg_def
    by (rule exI [where x = "''**''"]) (rule exI, simp)
  show "substr_in command (warning_msg command danger_type)"
    unfolding substr_in_iff warning_msg_def
    by (rule exI [where x = "''**'' @ ''Dangerous command warning'' @ ''**'' @ nl @ nl
           @ ''Dangerous operation detected: `''"]) (rule exI, simp)
  show "substr_in ''force_execute=true'' (warning_msg command danger_type)"
    unfolding substr_in_iff warning_msg_def
    by (rule exI [where x = "''**'' @ ''Dangerous command warning'' @ ''**'' @ nl @ nl
           @ ''Dangerous operation detected: `'' @ command @ ''`'' @ nl @ nl
           @ ''**Command type**: '' @ danger_type @ nl
           @ ''**Risk**: this operation may lose data or damage the system'' @ nl @ nl
           @ ''**To run this command, confirm and resubmit it with the `''"]) (rule exI, simp)
qed

text \<open>
  C5. For every call of \<open>execute_command\<close> without force whose command
  \<open>check_dangerous_command\<close> flags, the tool returns at once the confirmation result:
  \<open>isError\<close> is false, \<open>requires_confirmation\<close> is set, and the text warns of the
  dangerous command, quotes it and tells the caller to resubmit with
  \<open>force_execute=true\<close>. The result does not depend on the allow and deny rules (the
  check comes first), and the state is unchanged: no session is touched and no
  executor is called. \<open>rm -rf /\<close> is such a command.
\<close>

theorem dangerous_command_needs_confirmation:
  "(arg_command a = Some command
    \<and> (arg_force_execute a = None \<or> arg_force_execute a = Some False)
    \<and> fst (check_dangerous_command command)
    \<longrightarrow> execute_command sys rd flt a w
          = (confirmation_result command (snd (check_dangerous_command command)), w)
        \<and> \<not> isError (fst (execute_command sys rd flt a w))
        \<and> requires_confirmation (fst (execute_command sys rd flt a w)) = Some True
        \<and> substr_in ''Dangerous command warning''
             (content_text (fst (execute_command sys rd flt a w)))
        \<and> substr_in command (content_text (fst (execute_command sys rd flt a w)))
        \<and> substr_in ''force_execute=true'' (content_text (fst (execute_command sys rd flt a w)))
        \<and> executed (snd (execute_command sys rd flt a w)) = executed w
        \<and> manager (snd (execute_command sys rd flt a w)) = manager w)
   \<and> check_dangerous_command ''rm -rf /'' = (True, deletion_category)
   \<and> execute_command sys rd flt rm_root_args w
       = (confirmation_result ''rm -rf /'' deletion_category, w)"
proof (intro conjI impI)
  assume a: "arg_command a = Some command
    \<and> (arg_force_execute a = None \<or> arg_force_execute a = Some False)
    \<and> fst (check_dangerous_command command)"
  then show e: "execute_command sys rd flt a w
          = (confirmation_result command (snd (check_dangerous_command command)), w)"
    by (auto simp: execute_command_def)
  show "\<not> isError (fst (execute_command sys rd flt a w))"
    by (simp add: e confirmation_result_def)
  show "requires_confirmation (fst (execute_command sys rd flt a w)) = Some True"
    by (simp add: e confirmation_result_def)
  show "substr_in ''Dangerous command warning''
             (content_text (fst (execute_command sys rd flt a w)))"
    by (simp add: e confirmation_result_def warning_msg_parts)
  show "substr_in command (content_text (fst (execute_command sys rd flt a w)))"
    by (simp add: e confirmation_result_def warning_msg_parts)
  show "substr_in ''force_execute=true'' (content_text (fst (execute_command sys rd flt a w)))"
    by (simp add: e confirmation_result_def warning_msg_parts)
  show "executed (snd (execute_command sys rd flt a w)) = executed w"
    by (simp add: e)
  show "manager (snd (execute_command sys rd flt a w)) = manager w"
    by (simp add: e)
next
  show d: "check_dangerous_command ''rm -rf /'' = (True, deletion_category)"
    by code_simp
  show "execute_command sys rd flt rm_root_args w
       = (confirmation_result ''rm -rf /'' deletion_category, w)"
    by (simp add: execute_command_def rm_root_args_def no_args_def d)
qed

theorem dangerous_command_needs_confirmation_witness:
  "arg_command rm_root_args = Some ''rm -rf /''
   \<and> arg_force_execute rm_root_args = None
   \<and> fst (check_dangerous_command ''rm -rf /'')
   \<and> \<not> isError (fst (execute_command quiet_system noon open_filter rm_root_args fresh_world))
   \<and> requires_confirmation (fst (execute_command quiet_system noon open_filter rm_root_args fresh_world))
       = Some True
   \<and> executed (snd (execute_command quiet_system noon open_filter rm_root_args fresh_world)) = []"
proof -
  have 1: "arg_command rm_root_args = Some ''rm -rf /''"
    and 2: "arg_force_execute rm_root_args = None"
    by (simp_all add: rm_root_args_def no_args_def)
  have 3: "fst (check_dangerous_command ''rm -rf /'')" by code_simp
  have 4: "executed fresh_world = []" by (simp add: fresh_world_def)
  have "\<not> isError (fst (execute_command quiet_system noon open_filter rm_root_args fresh_world))
        \<and> requires_confirmation
            (fst (execute_command quiet_system noon open_filter rm_root_args fresh_world)) = Some True
        \<and> executed (snd (execute_command quiet_system noon open_filter rm_root_args fresh_world))
            = executed fresh_world"
    using dangerous_command_needs_confirmation [where a = rm_root_args and command = "''rm -rf /''"
        and sys = quiet_system and rd = noon and flt = open_filter and w = fresh_world] 1 2 3
    by blast
  then show ?thesis using 1 2 3 4 by simp
qed




section \<open>Claims on the dispatcher and the transports\<close>

text \<open>
  C2. The code answers a request without \<open>id\<close> unless its method is \<open>ping\<close>: for
  every such request \<open>handle_request\<close> returns a response that has no \<open>id\<close>, the
  stdio transport prints it and the POST handler returns it with status 200. For the
  notification \<open>notifications/initialized\<close> the response is the error -32601. Only
  \<open>ping\<close> without \<open>id\<close> gives no response value, no stdout line and status 204 without
  a body; \<open>ping\<close> with an \<open>id\<close> is answered with the pong result.
\<close>

theorem notification_is_answered:
  "(req_id rq = None \<and> req_method rq \<noteq> Some ''ping'' \<longrightarrow>
      (\<exists>r. fst (handle_request sys rd flt rq w) = Some r \<and> resp_id r = None
           \<and> fst (stdio_round sys rd flt (Inr rq) w) = [ResponseLine r]))
   \<and> handle_request sys rd flt initialized_notification w
       = (Some \<lparr> resp_payload = ErrorPayload (- 32601) ''Method not found: notifications/initialized'',
                 resp_id = None \<rparr>, w)
   \<and> stdio_round sys rd flt (Inr initialized_notification) w
       = ([ResponseLine \<lparr> resp_payload = ErrorPayload (- 32601)
                            ''Method not found: notifications/initialized'',
                          resp_id = None \<rparr>], w)
   \<and> fst (handle_mcp_message sys rd flt send (Object initialized_notification) [] w)
       = \<lparr> status = 200,
           body = Some (ResponseBody \<lparr> resp_payload = ErrorPayload (- 32601)
                                         ''Method not found: notifications/initialized'',
                                       resp_id = None \<rparr>) \<rparr>
   \<and> handle_request sys rd flt ping_notification w = (None, w)
   \<and> stdio_round sys rd flt (Inr ping_notification) w = ([], w)
   \<and> fst (handle_mcp_message sys rd flt send (Object ping_notification) streams w)
       = \<lparr> status = 204, body = None \<rparr>
   \<and> handle_request sys rd flt ping_request w
       = (Some \<lparr> resp_payload = PongResult (py_int (now_ping rd)), resp_id = Some (IdNum 5) \<rparr>, w)"
proof (intro conjI impI)
  assume a: "req_id rq = None \<and> req_method rq \<noteq> Some ''ping''"
  obtain x w1 where h: "handle_call_tool sys rd flt (req_params rq) w = (x, w1)"
    by (cases "handle_call_tool sys rd flt (req_params rq) w") auto
  have "\<exists>r. fst (handle_request sys rd flt rq w) = Some r \<and> resp_id r = None"
    using a by (cases x) (auto simp: handle_request_def Let_def h)
  then obtain r where r: "fst (handle_request sys rd flt rq w) = Some r" "resp_id r = None"
    by blast
  then have "fst (stdio_round sys rd flt (Inr rq) w) = [ResponseLine r]"
    by (cases "handle_request sys rd flt rq w") (auto simp: stdio_round_def)
  then show "\<exists>r. fst (handle_request sys rd flt rq w) = Some r \<and> resp_id r = None
           \<and> fst (stdio_round sys rd flt (Inr rq) w) = [ResponseLine r]"
    using r by blast
next
  show i: "handle_request sys rd flt initialized_notification w
       = (Some \<lparr> resp_payload = ErrorPayload (- 32601) ''Method not found: notifications/initialized'',
                 resp_id = None \<rparr>, w)"
    by (simp add: handle_request_def initialized_notification_def str_opt_def)
  show "stdio_round sys rd flt (Inr initialized_notification) w
       = ([ResponseLine \<lparr> resp_payload = ErrorPayload (- 32601)
                            ''Method not found: notifications/initialized'',
                          resp_id = None \<rparr>], w)"
    by (simp add: stdio_round_def i)
  have j: "req_jsonrpc initialized_notification = Some ''2.0''"
    "req_method initialized_notification \<noteq> None" "req_id initialized_notification = None"
    by (simp_all add: initialized_notification_def)
  show "fst (handle_mcp_message sys rd flt send (Object initialized_notification) [] w)
       = \<lparr> status = 200,
           body = Some (ResponseBody \<lparr> resp_payload = ErrorPayload (- 32601)
                                         ''Method not found: notifications/initialized'',
                                       resp_id = None \<rparr>) \<rparr>"
    by (simp add: handle_mcp_message_def i j)
  show p: "handle_request sys rd flt ping_notification w = (None, w)"
    by (simp add: handle_request_def ping_notification_def)
  show "stdio_round sys rd flt (Inr ping_notification) w = ([], w)"
    by (simp add: stdio_round_def p)
  have k: "req_jsonrpc ping_notification = Some ''2.0''" "req_method ping_notification \<noteq> None"
    by (simp_all add: ping_notification_def)
  show "fst (handle_mcp_message sys rd flt send (Object ping_notification) streams w)
       = \<lparr> status = 204, body = None \<rparr>"
    by (simp add: handle_mcp_message_def p k)
  show "handle_request sys rd flt ping_request w
       = (Some \<lparr> resp_payload = PongResult (py_int (now_ping rd)), resp_id = Some (IdNum 5) \<rparr>, w)"
    by (simp add: handle_request_def ping_request_def)
qed

theorem notification_is_answered_witness:
  "req_id initialized_notification = None
   \<and> req_method initialized_notification \<noteq> Some ''ping''
   \<and> (\<exists>r. fst (handle_request quiet_system noon open_filter initialized_notification fresh_world)
             = Some r
           \<and> resp_id r = None
           \<and> fst (stdio_round quiet_system noon open_filter (Inr initialized_notification)
                     fresh_world) = [ResponseLine r])"
proof -
  have 1: "req_id initialized_notification = None
           \<and> req_method initialized_notification \<noteq> Some ''ping''"
    by (simp add: initialized_notification_def)
  show ?thesis
    using notification_is_answered [where rq = initialized_notification and sys = quiet_system
        and rd = noon and flt = open_filter and w = fresh_world] 1
    by blast
qed

lemma broadcast_loop_filter:
  "broadcast_loop send xs dead attempted delivered
   = (dead @ map fst (filter (marked_dead send) xs),
      attempted @ map fst (filter write_attempted xs),
      delivered @ map fst (filter (write_succeeded send) xs))"
proof (induction xs arbitrary: dead attempted delivered)
  case Nil
  show ?case by simp
next
  case (Cons x xs)
  obtain stream_id response where x: "x = (stream_id, response)" by (cases x)
  show ?case
    by (cases "send (handle response)")
       (simp_all add: x Cons.IH marked_dead_def write_attempted_def write_succeeded_def Let_def)
qed

lemma delete_filter: "AList.delete d xs = filter (\<lambda>entry. fst entry \<noteq> d) xs"
  by (induction xs) auto

lemma filter_absent_key: "d \<notin> fst ` set xs \<Longrightarrow> filter (\<lambda>entry. fst entry \<noteq> d) xs = xs"
  by (induction xs) auto

lemma remove_dead_filter:
  "remove_dead ds active = filter (\<lambda>entry. fst entry \<notin> set ds) active"
proof (induction ds arbitrary: active)
  case Nil
  show ?case by (simp add: remove_dead_def)
next
  case (Cons d ds)
  have step: "(if d \<in> set (map fst active) then AList.delete d active else active)
              = filter (\<lambda>entry. fst entry \<noteq> d) active"
    by (cases "d \<in> set (map fst active)") (simp_all add: delete_filter filter_absent_key)
  have "remove_dead (d # ds) active = remove_dead ds (filter (\<lambda>entry. fst entry \<noteq> d) active)"
    unfolding remove_dead_def fold_simps step ..
  then show ?case by (auto simp: Cons.IH intro: filter_cong)
qed

lemma distinct_keys_filter_member:
  assumes "distinct (map fst xs)" and "e \<in> set xs"
  shows "(fst e \<in> set (map fst (filter P xs))) = P e"
proof
  assume "fst e \<in> set (map fst (filter P xs))"
  then obtain e' where e': "e' \<in> set xs" "P e'" "fst e' = fst e" by auto
  then have "e' = e" using assms by (metis eq_key_imp_eq_value prod.collapse)
  then show "P e" using e' by simp
next
  assume "P e"
  then show "fst e \<in> set (map fst (filter P xs))" using assms(2) by auto
qed

text \<open>
  C9, as the claim states it, fails for a write that fails in another way than a
  connection error: with three channels of which the second raises an exception
  whose text names neither a closed connection nor a write, the other two receive the
  message, and the failed channel is still in the channel set afterwards.
\<close>

theorem broadcast_counterexample:
  "write_failed second_unexpected (''b'', open_stream 1)
   \<and> broadcast_message second_unexpected three_streams
       = (three_streams, [''a'', ''b'', ''c''], [''a'', ''c''])"
  by code_simp

lemma broadcast_message_filter:
  assumes "distinct (map fst active)"
  shows "broadcast_message send active
         = (filter (\<lambda>entry. \<not> marked_dead send entry) active,
            map fst (filter write_attempted active),
            map fst (filter (write_succeeded send) active))"
proof (cases "active = []")
  case True
  then show ?thesis by (simp add: broadcast_message_def)
next
  case False
  have "filter (\<lambda>entry. fst entry \<notin> set (map fst (filter (marked_dead send) active))) active
        = filter (\<lambda>entry. \<not> marked_dead send entry) active"
    using distinct_keys_filter_member [OF assms] by (intro filter_cong) auto
  then show ?thesis
    using False by (simp add: broadcast_message_def broadcast_loop_filter remove_dead_filter)
qed

text \<open>
  C9, amended. A broadcast over the open channels (their ids are distinct) writes to
  every channel found alive, whatever happens on the others, and every channel whose
  write succeeds receives the message: one failed write neither stops nor skips the
  rest. After the broadcast the channel set holds exactly the channels not marked
  dead. A channel is marked dead when it is found not alive, when its write raises a
  connection error (\<open>ConnectionError\<close>, \<open>OSError\<close>, \<open>RuntimeError\<close>), or when it raises
  another exception whose lower-cased text contains \<open>closing\<close>, \<open>closed\<close> or \<open>write\<close>.
  So a channel whose write fails with a connection error is absent afterwards, and
  a channel whose write fails in any other way stays in the set.
\<close>

theorem broadcast_isolates_failures:
  "distinct (map fst active) \<Longrightarrow>
   fst (snd (broadcast_message send active)) = map fst (filter write_attempted active)
   \<and> snd (snd (broadcast_message send active)) = map fst (filter (write_succeeded send) active)
   \<and> fst (broadcast_message send active) = filter (\<lambda>entry. \<not> marked_dead send entry) active
   \<and> (\<forall>entry\<in>set active. \<forall>e.
         is_connection_alive (snd entry) \<and> send (handle (snd entry)) = ConnectionFailure e
         \<longrightarrow> write_failed send entry
             \<and> fst entry \<notin> set (map fst (fst (broadcast_message send active))))
   \<and> (\<forall>entry\<in>set active. \<forall>e.
         is_connection_alive (snd entry) \<and> send (handle (snd entry)) = OtherFailure e
         \<and> \<not> substr_in ''closing'' (lower e) \<and> \<not> substr_in ''closed'' (lower e)
         \<and> \<not> substr_in ''write'' (lower e)
         \<longrightarrow> write_failed send entry \<and> entry \<in> set (fst (broadcast_message send active)))
   \<and> (\<forall>entry\<in>set active. write_succeeded send entry
         \<longrightarrow> fst entry \<in> set (snd (snd (broadcast_message send active)))
             \<and> entry \<in> set (fst (broadcast_message send active)))"
proof -
  assume d: "distinct (map fst active)"
  note b = broadcast_message_filter [OF d]
  have 4: "\<forall>entry\<in>set active. \<forall>e.
         is_connection_alive (snd entry) \<and> send (handle (snd entry)) = ConnectionFailure e
         \<longrightarrow> write_failed send entry
             \<and> fst entry \<notin> set (map fst (fst (broadcast_message send active)))"
  proof (intro ballI allI impI)
    fix entry e
    assume m: "entry \<in> set active"
      and a: "is_connection_alive (snd entry) \<and> send (handle (snd entry)) = ConnectionFailure e"
    have dead: "marked_dead send entry" using a by (simp add: marked_dead_def)
    have "(fst entry \<in> set (map fst (filter (\<lambda>entry. \<not> marked_dead send entry) active)))
          = (\<not> marked_dead send entry)"
      by (rule distinct_keys_filter_member [OF d m])
    then show "write_failed send entry
              \<and> fst entry \<notin> set (map fst (fst (broadcast_message send active)))"
      using a dead by (simp add: b write_failed_def)
  qed
  have 5: "\<forall>entry\<in>set active. \<forall>e.
         is_connection_alive (snd entry) \<and> send (handle (snd entry)) = OtherFailure e
         \<and> \<not> substr_in ''closing'' (lower e) \<and> \<not> substr_in ''closed'' (lower e)
         \<and> \<not> substr_in ''write'' (lower e)
         \<longrightarrow> write_failed send entry \<and> entry \<in> set (fst (broadcast_message send active))"
    by (auto simp: b marked_dead_def write_failed_def)
  have 6: "\<forall>entry\<in>set active. write_succeeded send entry
         \<longrightarrow> fst entry \<in> set (snd (snd (broadcast_message send active)))
             \<and> entry \<in> set (fst (broadcast_message send active))"
    by (auto simp: b marked_dead_def write_succeeded_def)
  have 1: "fst (snd (broadcast_message send active)) = map fst (filter write_attempted active)"
    by (simp add: b)
  have 2: "snd (snd (broadcast_message send active))
           = map fst (filter (write_succeeded send) active)"
    by (simp add: b)
  have 3: "fst (broadcast_message send active)
           = filter (\<lambda>entry. \<not> marked_dead send entry) active"
    by (simp add: b)
  show ?thesis
    by (rule conjI [OF 1 conjI [OF 2 conjI [OF 3 conjI [OF 4 conjI [OF 5 6]]]]])
qed

theorem broadcast_isolates_failures_witness:
  "distinct (map fst three_streams)
   \<and> write_failed second_reset (''b'', open_stream 1)
   \<and> snd (snd (broadcast_message second_reset three_streams)) = [''a'', ''c'']
   \<and> ''b'' \<notin> set (map fst (fst (broadcast_message second_reset three_streams)))
   \<and> write_failed second_unexpected (''b'', open_stream 1)
   \<and> snd (snd (broadcast_message second_unexpected three_streams)) = [''a'', ''c'']
   \<and> (''b'', open_stream 1) \<in> set (fst (broadcast_message second_unexpected three_streams))"
proof -
  have d: "distinct (map fst three_streams)" by (simp add: three_streams_def)
  have m: "(''b'', open_stream 1) \<in> set three_streams" by (simp add: three_streams_def)
  have al: "is_connection_alive (open_stream 1)"
    by (simp add: is_connection_alive_def open_stream_def)
  have r: "second_reset (handle (open_stream 1))
             = ConnectionFailure ''Cannot write to closing transport''"
    by (simp add: second_reset_def open_stream_def)
  have u: "second_unexpected (handle (open_stream 1)) = OtherFailure ''unexpected error''"
    by (simp add: second_unexpected_def open_stream_def)
  have w: "\<not> substr_in ''closing'' (lower ''unexpected error'')
           \<and> \<not> substr_in ''closed'' (lower ''unexpected error'')
           \<and> \<not> substr_in ''write'' (lower ''unexpected error'')"
    by code_simp
  have s1: "map fst (filter (write_succeeded second_reset) three_streams) = [''a'', ''c'']"
    by (simp add: three_streams_def write_succeeded_def second_reset_def open_stream_def
        is_connection_alive_def)
  have s2: "map fst (filter (write_succeeded second_unexpected) three_streams) = [''a'', ''c'']"
    by (simp add: three_streams_def write_succeeded_def second_unexpected_def open_stream_def
        is_connection_alive_def)
  note a = broadcast_isolates_failures [OF d, where send = second_reset]
  note b = broadcast_isolates_failures [OF d, where send = second_unexpected]
  note a4 = a [THEN conjunct2, THEN conjunct2, THEN conjunct2, THEN conjunct1, rule_format, OF m]
  note b5 = b [THEN conjunct2, THEN conjunct2, THEN conjunct2, THEN conjunct2, THEN conjunct1,
      rule_format, OF m]
  have 1: "write_failed second_reset (''b'', open_stream 1)
           \<and> ''b'' \<notin> set (map fst (fst (broadcast_message second_reset three_streams)))"
    using a4 [of "''Cannot write to closing transport''"] al r by simp
  have 2: "write_failed second_unexpected (''b'', open_stream 1)
           \<and> (''b'', open_stream 1) \<in> set (fst (broadcast_message second_unexpected three_streams))"
    using b5 [of "''unexpected error''"] al u w by simp
  have 3: "snd (snd (broadcast_message second_reset three_streams)) = [''a'', ''c'']"
    using a [THEN conjunct2, THEN conjunct1] by (simp only: s1)
  have 4: "snd (snd (broadcast_message second_unexpected three_streams)) = [''a'', ''c'']"
    using b [THEN conjunct2, THEN conjunct1] by (simp only: s2)
  show ?thesis using d 1 2 3 4 by blast
qed
section \<open>Lemmas on the session store\<close>

lemma cleanup_session_fields:
  "sessions (cleanup_session cl k sm) = AList.delete k (sessions sm)"
  "close_calls (cleanup_session cl k sm)
     = close_calls sm
       @ (case Option.bind (map_of (sessions sm) k) ssh_client of None \<Rightarrow> [] | Some c \<Rightarrow> [c])"
  "session_timeout (cleanup_session cl k sm) = session_timeout sm"
  "next_oid (cleanup_session cl k sm) = next_oid sm"
proof -
  show "sessions (cleanup_session cl k sm) = AList.delete k (sessions sm)"
  proof (cases "map_of (sessions sm) k")
    case None
    then have "k \<notin> fst ` set (sessions sm)" by (simp add: map_of_eq_None_iff)
    then show ?thesis using None by (simp add: cleanup_session_def)
  next
    case (Some s)
    then show ?thesis
      by (simp add: cleanup_session_def Let_def split: option.splits sum.splits)
  qed
  show "close_calls (cleanup_session cl k sm)
     = close_calls sm
       @ (case Option.bind (map_of (sessions sm) k) ssh_client of None \<Rightarrow> [] | Some c \<Rightarrow> [c])"
    by (simp add: cleanup_session_def Let_def split: option.splits sum.splits)
  show "session_timeout (cleanup_session cl k sm) = session_timeout sm"
    by (simp add: cleanup_session_def Let_def split: option.splits sum.splits)
  show "next_oid (cleanup_session cl k sm) = next_oid sm"
    by (simp add: cleanup_session_def Let_def split: option.splits sum.splits)
qed

lemma sweep_fields:
  assumes "distinct ks"
  shows "sessions (fold (cleanup_session cl) ks sm)
           = filter (\<lambda>entry. fst entry \<notin> set ks) (sessions sm)"
    and "close_calls (fold (cleanup_session cl) ks sm)
           = close_calls sm
             @ concat (map (\<lambda>k. case Option.bind (map_of (sessions sm) k) ssh_client of
                                    None \<Rightarrow> [] | Some c \<Rightarrow> [c]) ks)"
    and "session_timeout (fold (cleanup_session cl) ks sm) = session_timeout sm"
    and "next_oid (fold (cleanup_session cl) ks sm) = next_oid sm"
  using assms
proof (induction ks arbitrary: sm)
  case Nil
  {
    case 1 show ?case by simp
  next
    case 2 show ?case by simp
  next
    case 3 show ?case by simp
  next
    case 4 show ?case by simp
  }
next
  case (Cons k ks)
  {
    case 1
    then have d: "distinct ks" by simp
    show ?case
      by (simp add: Cons.IH(1) [OF d] cleanup_session_fields delete_filter conj_commute)
  next
    case 2
    then have d: "distinct ks" and n: "k \<notin> set ks" by simp_all
    have "map (\<lambda>k'. case Option.bind (map_of (AList.delete k (sessions sm)) k') ssh_client of
                       None \<Rightarrow> [] | Some c \<Rightarrow> [c]) ks
          = map (\<lambda>k'. case Option.bind (map_of (sessions sm) k') ssh_client of
                       None \<Rightarrow> [] | Some c \<Rightarrow> [c]) ks"
    proof (intro map_cong refl)
      fix x
      assume "x \<in> set ks"
      then have "x \<noteq> k" using n by auto
      then have "map_of (AList.delete k (sessions sm)) x = map_of (sessions sm) x"
        by (rule map_of_delete)
      then show "(case Option.bind (map_of (AList.delete k (sessions sm)) x) ssh_client of
                    None \<Rightarrow> [] | Some c \<Rightarrow> [c])
                 = (case Option.bind (map_of (sessions sm) x) ssh_client of
                    None \<Rightarrow> [] | Some c \<Rightarrow> [c])"
        by simp
    qed
    then have m: "concat (map (\<lambda>k'. case Option.bind (map_of (AList.delete k (sessions sm)) k')
                                          ssh_client of None \<Rightarrow> [] | Some c \<Rightarrow> [c]) ks)
          = concat (map (\<lambda>k'. case Option.bind (map_of (sessions sm) k') ssh_client of
                       None \<Rightarrow> [] | Some c \<Rightarrow> [c]) ks)"
      by (rule arg_cong)
    have "close_calls (fold (cleanup_session cl) (k # ks) sm)
          = close_calls (fold (cleanup_session cl) ks (cleanup_session cl k sm))"
      by simp
    also have "\<dots> = close_calls (cleanup_session cl k sm)
          @ concat (map (\<lambda>k'. case Option.bind (map_of (sessions (cleanup_session cl k sm)) k')
                                  ssh_client of None \<Rightarrow> [] | Some c \<Rightarrow> [c]) ks)"
      by (rule Cons.IH(2) [OF d])
    also have "\<dots> = (close_calls sm
            @ (case Option.bind (map_of (sessions sm) k) ssh_client of None \<Rightarrow> [] | Some c \<Rightarrow> [c]))
          @ concat (map (\<lambda>k'. case Option.bind (map_of (sessions sm) k') ssh_client of
                       None \<Rightarrow> [] | Some c \<Rightarrow> [c]) ks)"
      by (simp only: cleanup_session_fields m)
    also have "\<dots> = close_calls sm
          @ concat (map (\<lambda>k'. case Option.bind (map_of (sessions sm) k') ssh_client of
                       None \<Rightarrow> [] | Some c \<Rightarrow> [c]) (k # ks))"
      by simp
    finally show ?case .
  next
    case 3
    then have d: "distinct ks" by simp
    show ?case by (simp add: Cons.IH(3) [OF d] cleanup_session_fields)
  next
    case 4
    then have d: "distinct ks" by simp
    show ?case by (simp add: Cons.IH(4) [OF d] cleanup_session_fields)
  }
qed

lemma map_of_entry:
  "distinct (map fst xs) \<Longrightarrow> e \<in> set xs \<Longrightarrow> map_of xs (fst e) = Some (snd e)"
  by (cases e) simp

lemma closes_of_entries:
  assumes "distinct (map fst xs)" and "set ys \<subseteq> set xs"
  shows "concat (map (\<lambda>entry. case Option.bind (map_of xs (fst entry)) f of
                                   None \<Rightarrow> [] | Some c \<Rightarrow> [c]) ys)
         = List.map_filter (\<lambda>entry. f (snd entry)) ys"
  using assms(2)
proof (induction ys)
  case Nil
  show ?case by (simp add: List.map_filter_simps)
next
  case (Cons y ys)
  then have y: "y \<in> set xs" and ys: "set ys \<subseteq> set xs" by simp_all
  have m: "map_of xs (fst y) = Some (snd y)" by (rule map_of_entry [OF assms(1) y])
  show ?case
    by (cases "f (snd y)") (simp_all add: Cons.IH [OF ys] m List.map_filter_simps)
qed

lemma sweep_expired:
  assumes "distinct (map fst (sessions sm))"
  shows "fold (cleanup_session cl) (expired_sessions sm now) sm
         = \<lparr> sessions = filter (\<lambda>entry. \<not> is_expired sm now entry) (sessions sm),
             session_timeout = session_timeout sm,
             next_oid = next_oid sm,
             close_calls = close_calls sm
               @ List.map_filter (\<lambda>entry. ssh_client (snd entry))
                   (filter (is_expired sm now) (sessions sm)) \<rparr>"
proof -
  have d: "distinct (expired_sessions sm now)"
    unfolding expired_sessions_def by (rule distinct_map_filter [OF assms])
  have 1: "filter (\<lambda>entry. fst entry \<notin> set (expired_sessions sm now)) (sessions sm)
           = filter (\<lambda>entry. \<not> is_expired sm now entry) (sessions sm)"
    unfolding expired_sessions_def
    using distinct_keys_filter_member [OF assms] by (intro filter_cong) auto
  have 2: "concat (map (\<lambda>k. case Option.bind (map_of (sessions sm) k) ssh_client of
                                    None \<Rightarrow> [] | Some c \<Rightarrow> [c]) (expired_sessions sm now))
           = List.map_filter (\<lambda>entry. ssh_client (snd entry))
               (filter (is_expired sm now) (sessions sm))"
    unfolding expired_sessions_def map_map comp_def by (rule closes_of_entries [OF assms]) auto
  show ?thesis
    by (rule session_manager.equality) (simp_all add: sweep_fields [OF d] 1 2)
qed

lemma map_of_filter_distinct:
  assumes "distinct (map fst al)"
  shows "map_of (filter keep al) key
         = Option.bind (map_of al key) (\<lambda>v. if keep (key, v) then Some v else None)"
  using assms
proof (induction al)
  case Nil
  show ?case by simp
next
  case (Cons entry al)
  obtain sid0 s0 where e: "entry = (sid0, s0)" by (cases entry)
  have fresh: "sid0 \<notin> fst ` set al" and rest: "distinct (map fst al)"
    using Cons.prems by (simp_all add: e)
  have 1: "map_of al sid0 = None" using fresh by (simp add: map_of_eq_None_iff)
  have 2: "map_of (filter keep al) sid0 = None"
    using fresh by (auto simp: map_of_eq_None_iff)
  show ?case
  proof (cases "key = sid0")
    case True
    then show ?thesis by (simp add: e 1 2)
  next
    case False
    then show ?thesis by (simp add: e Cons.IH [OF rest])
  qed
qed

lemma update_absent: "k \<notin> fst ` set xs \<Longrightarrow> AList.update k v xs = xs @ [(k, v)]"
  by (induction xs) auto

lemma map_update_same:
  "map_of xs k = Some old \<Longrightarrow> g (k, v) = g (k, old) \<Longrightarrow> distinct (map fst xs)
     \<Longrightarrow> map g (AList.update k v xs) = map g xs"
proof (induction xs)
  case Nil
  then show ?case by simp
next
  case (Cons x xs)
  obtain a b where x: "x = (a, b)" by (cases x)
  show ?case
  proof (cases "a = k")
    case True
    then show ?thesis using Cons.prems by (simp add: x)
  next
    case False
    then show ?thesis using Cons by (simp add: x)
  qed
qed

lemma map_filter_update_same:
  "map_of xs k = Some old \<Longrightarrow> f (k, v) = f (k, old) \<Longrightarrow> distinct (map fst xs)
     \<Longrightarrow> List.map_filter f (AList.update k v xs) = List.map_filter f xs"
proof (induction xs)
  case Nil
  then show ?case by simp
next
  case (Cons x xs)
  obtain a b where x: "x = (a, b)" by (cases x)
  show ?case
  proof (cases "a = k")
    case True
    then show ?thesis using Cons.prems by (simp add: x List.map_filter_simps)
  next
    case False
    then show ?thesis using Cons by (simp add: x List.map_filter_simps split: option.splits)
  qed
qed

lemma distinct_map_filter_filter:
  "distinct (List.map_filter f xs) \<Longrightarrow> distinct (List.map_filter f (filter P xs))"
proof (induction xs)
  case Nil
  then show ?case by simp
next
  case (Cons x xs)
  have s: "set (List.map_filter f (filter P xs)) \<subseteq> set (List.map_filter f xs)"
    by (auto simp: List.map_filter_def)
  show ?case
    using Cons s by (cases "f x") (auto simp: List.map_filter_simps)
qed

lemma get_session_unfold:
  assumes "distinct (map fst (sessions sm))"
  shows "get_session cl now sm sid h u =
     (case map_of (filter (\<lambda>entry. \<not> is_expired sm now entry) (sessions sm)) sid of
        None \<Rightarrow>
          (\<lparr> oid = next_oid sm, host = h, username = u, ssh_client = None, created = now,
              last_used = now, local_env = [] \<rparr>,
           \<lparr> sessions = filter (\<lambda>entry. \<not> is_expired sm now entry) (sessions sm)
                @ [(sid, \<lparr> oid = next_oid sm, host = h, username = u, ssh_client = None,
                           created = now, last_used = now, local_env = [] \<rparr>)],
             session_timeout = session_timeout sm,
             next_oid = Suc (next_oid sm),
             close_calls = close_calls sm
               @ List.map_filter (\<lambda>entry. ssh_client (snd entry))
                   (filter (is_expired sm now) (sessions sm)) \<rparr>)
      | Some existing \<Rightarrow>
          (existing\<lparr>last_used := now\<rparr>,
           \<lparr> sessions = AList.update sid (existing\<lparr>last_used := now\<rparr>)
                (filter (\<lambda>entry. \<not> is_expired sm now entry) (sessions sm)),
             session_timeout = session_timeout sm,
             next_oid = next_oid sm,
             close_calls = close_calls sm
               @ List.map_filter (\<lambda>entry. ssh_client (snd entry))
                   (filter (is_expired sm now) (sessions sm)) \<rparr>))"
proof (cases "map_of (filter (\<lambda>entry. \<not> is_expired sm now entry) (sessions sm)) sid")
  case None
  then have "sid \<notin> fst ` set (filter (\<lambda>entry. \<not> is_expired sm now entry) (sessions sm))"
    by (simp add: map_of_eq_None_iff)
  then show ?thesis
    using None by (simp add: get_session_def sweep_expired [OF assms] Let_def update_absent)
next
  case (Some existing)
  then show ?thesis
    by (simp add: get_session_def sweep_expired [OF assms] Let_def)
qed
lemma get_session_map_of:
  assumes "distinct (map fst (sessions sm))"
  shows "map_of (sessions (snd (get_session cl now sm sid h u))) k
         = (if k = sid then Some (fst (get_session cl now sm sid h u))
            else map_of (filter (\<lambda>entry. \<not> is_expired sm now entry) (sessions sm)) k)"
proof (cases "map_of (filter (\<lambda>entry. \<not> is_expired sm now entry) (sessions sm)) sid")
  case None
  then show ?thesis
    by (simp add: get_session_unfold [OF assms] map_add_def split: option.splits)
next
  case (Some existing)
  then show ?thesis
    by (simp add: get_session_unfold [OF assms] update_conv')
qed

lemma get_session_close_calls:
  assumes "distinct (map fst (sessions sm))"
  shows "new_close_calls sm (snd (get_session cl now sm sid h u))
         = List.map_filter (\<lambda>entry. ssh_client (snd entry))
             (filter (is_expired sm now) (sessions sm))"
  by (simp add: get_session_unfold [OF assms] new_close_calls_def split: option.splits)

lemma get_session_existing:
  assumes "distinct (map fst (sessions sm))" and "map_of (sessions sm) sid = Some x"
    and "\<not> (now - last_used x > session_timeout sm)"
  shows "fst (get_session cl now sm sid h u) = x\<lparr>last_used := now\<rparr>"
  using assms(2,3)
  by (simp add: get_session_unfold [OF assms(1)] map_of_filter_distinct [OF assms(1)]
      is_expired_def)

lemma get_session_expired:
  assumes "distinct (map fst (sessions sm))" and "map_of (sessions sm) sid = Some x"
    and "now - last_used x > session_timeout sm"
  shows "fst (get_session cl now sm sid h u)
         = \<lparr> oid = next_oid sm, host = h, username = u, ssh_client = None, created = now,
             last_used = now, local_env = [] \<rparr>"
  using assms(2,3)
  by (simp add: get_session_unfold [OF assms(1)] map_of_filter_distinct [OF assms(1)]
      is_expired_def)

lemma get_session_absent:
  assumes "distinct (map fst (sessions sm))" and "map_of (sessions sm) sid = None"
  shows "fst (get_session cl now sm sid h u)
         = \<lparr> oid = next_oid sm, host = h, username = u, ssh_client = None, created = now,
             last_used = now, local_env = [] \<rparr>"
  using assms(2)
  by (simp add: get_session_unfold [OF assms(1)] map_of_filter_distinct [OF assms(1)])

lemma get_session_timeout:
  assumes "distinct (map fst (sessions sm))"
  shows "session_timeout (snd (get_session cl now sm sid h u)) = session_timeout sm"
  by (simp add: get_session_unfold [OF assms] split: option.splits)

lemma list_all_oid_map:
  "list_all (\<lambda>entry. oid (snd entry) < n) xs
   = (\<forall>y\<in>set (map (\<lambda>entry. oid (snd entry)) xs). y < n)"
  by (simp add: list_all_iff)

lemma get_session_ok:
  assumes "manager_ok sm"
  shows "manager_ok (snd (get_session cl now sm sid h u))"
proof -
  define xs1 where "xs1 = filter (\<lambda>entry. \<not> is_expired sm now entry) (sessions sm)"
  have d: "distinct (map fst (sessions sm))" using assms by (simp add: manager_ok_def)
  have d1: "distinct (map fst xs1)"
    unfolding xs1_def by (rule distinct_map_filter [OF d])
  have o1: "\<forall>y\<in>set (map (\<lambda>entry. oid (snd entry)) xs1). y < next_oid sm"
    using assms by (auto simp: manager_ok_def xs1_def list_all_iff)
  have do1: "distinct (map (\<lambda>entry. oid (snd entry)) xs1)"
    unfolding xs1_def using assms by (intro distinct_map_filter) (simp add: manager_ok_def)
  have c1: "distinct (List.map_filter (\<lambda>entry. ssh_client (snd entry)) xs1)"
    unfolding xs1_def using assms
    by (intro distinct_map_filter_filter) (simp add: manager_ok_def stored_clients_def)
  show ?thesis
  proof (cases "map_of xs1 sid")
    case None
    then have n: "sid \<notin> fst ` set xs1" by (simp add: map_of_eq_None_iff)
    have f: "next_oid sm \<notin> set (map (\<lambda>entry. oid (snd entry)) xs1)" using o1 by auto
    have g: "snd (get_session cl now sm sid h u)
             = \<lparr> sessions = xs1 @ [(sid, \<lparr> oid = next_oid sm, host = h, username = u,
                    ssh_client = None, created = now, last_used = now, local_env = [] \<rparr>)],
                 session_timeout = session_timeout sm, next_oid = Suc (next_oid sm),
                 close_calls = close_calls sm
                   @ List.map_filter (\<lambda>entry. ssh_client (snd entry))
                       (filter (is_expired sm now) (sessions sm)) \<rparr>"
      using None by (simp add: get_session_unfold [OF d] xs1_def)
    have 1: "distinct (map fst (xs1 @ [(sid, \<lparr> oid = next_oid sm, host = h, username = u,
                    ssh_client = None, created = now, last_used = now, local_env = [] \<rparr>)]))"
      using d1 n by simp
    have 2: "list_all (\<lambda>entry. oid (snd entry) < Suc (next_oid sm))
               (xs1 @ [(sid, \<lparr> oid = next_oid sm, host = h, username = u,
                    ssh_client = None, created = now, last_used = now, local_env = [] \<rparr>)])"
      using o1 by (auto simp: list_all_iff)
    have 3: "distinct (map (\<lambda>entry. oid (snd entry))
               (xs1 @ [(sid, \<lparr> oid = next_oid sm, host = h, username = u,
                    ssh_client = None, created = now, last_used = now, local_env = [] \<rparr>)]))"
      using do1 f by simp
    have 4: "List.map_filter (\<lambda>entry. ssh_client (snd entry))
               (xs1 @ [(sid, \<lparr> oid = next_oid sm, host = h, username = u,
                    ssh_client = None, created = now, last_used = now, local_env = [] \<rparr>)])
             = List.map_filter (\<lambda>entry. ssh_client (snd entry)) xs1"
      by (simp add: List.map_filter_def)
    show ?thesis
      unfolding g manager_ok_def stored_clients_def using 1 2 3 c1 by (simp add: 4)
  next
    case (Some existing)
    have g: "snd (get_session cl now sm sid h u)
             = \<lparr> sessions = AList.update sid (existing\<lparr>last_used := now\<rparr>) xs1,
                 session_timeout = session_timeout sm, next_oid = next_oid sm,
                 close_calls = close_calls sm
                   @ List.map_filter (\<lambda>entry. ssh_client (snd entry))
                       (filter (is_expired sm now) (sessions sm)) \<rparr>"
      using Some by (simp add: get_session_unfold [OF d] xs1_def)
    have 1: "distinct (map fst (AList.update sid (existing\<lparr>last_used := now\<rparr>) xs1))"
      by (rule distinct_update [OF d1])
    have m: "map (\<lambda>entry. oid (snd entry)) (AList.update sid (existing\<lparr>last_used := now\<rparr>) xs1)
             = map (\<lambda>entry. oid (snd entry)) xs1"
      by (rule map_update_same [OF Some _ d1]) simp
    have c: "List.map_filter (\<lambda>entry. ssh_client (snd entry))
               (AList.update sid (existing\<lparr>last_used := now\<rparr>) xs1)
             = List.map_filter (\<lambda>entry. ssh_client (snd entry)) xs1"
      by (rule map_filter_update_same [OF Some _ d1]) simp
    show ?thesis
      unfolding g manager_ok_def stored_clients_def list_all_oid_map
      using 1 o1 do1 c1 by (simp add: m c)
  qed
qed

lemma distinct_count_one: "distinct xs \<Longrightarrow> x \<in> set xs \<Longrightarrow> count_list xs x = 1"
  by (induction xs) auto
section \<open>Claims on the session store\<close>

text \<open>
  C8. \<open>get_session\<close> is one step on a well-formed manager (the lock is the atomicity of
  the step). It first evicts every session idle for more than the timeout: apart
  from the requested id, an expired session is gone afterwards and an unexpired one is
  kept as it was. It calls \<open>close()\<close> on the connections of the evicted sessions, each
  exactly once, whatever \<open>close()\<close> does (the outcome function \<open>cl\<close> may raise). For the
  requested id: a stored session within the timeout is returned as the same object,
  its state unchanged but for \<open>last_used\<close>, which becomes the current time; a stored
  session past the timeout, or no stored session, gives a new session object. The
  returned session is the one stored under the id, and the manager stays well-formed.
  So two calls with the same id return the same object with \<open>last_used\<close> refreshed when
  the second comes within the timeout, and a new object when it comes later.
\<close>

theorem get_session_sweeps_and_reuses:
  "manager_ok sm \<Longrightarrow>
   (\<forall>entry\<in>set (sessions sm). fst entry \<noteq> sid \<longrightarrow>
       map_of (sessions (snd (get_session cl now sm sid h u))) (fst entry)
         = (if is_expired sm now entry then None else Some (snd entry)))
   \<and> new_close_calls sm (snd (get_session cl now sm sid h u))
       = List.map_filter (\<lambda>entry. ssh_client (snd entry))
           (filter (is_expired sm now) (sessions sm))
   \<and> (\<forall>entry\<in>set (sessions sm). \<forall>c.
         is_expired sm now entry \<and> ssh_client (snd entry) = Some c
         \<longrightarrow> count_list (new_close_calls sm (snd (get_session cl now sm sid h u))) c = 1)
   \<and> (\<forall>x. map_of (sessions sm) sid = Some x \<and> \<not> (now - last_used x > session_timeout sm)
         \<longrightarrow> fst (get_session cl now sm sid h u) = x\<lparr>last_used := now\<rparr>)
   \<and> (\<forall>x. map_of (sessions sm) sid = Some x \<and> now - last_used x > session_timeout sm
         \<longrightarrow> fst (get_session cl now sm sid h u)
               = \<lparr> oid = next_oid sm, host = h, username = u, ssh_client = None,
                   created = now, last_used = now, local_env = [] \<rparr>
             \<and> oid (fst (get_session cl now sm sid h u)) \<noteq> oid x)
   \<and> (map_of (sessions sm) sid = None
         \<longrightarrow> fst (get_session cl now sm sid h u)
               = \<lparr> oid = next_oid sm, host = h, username = u, ssh_client = None,
                   created = now, last_used = now, local_env = [] \<rparr>)
   \<and> map_of (sessions (snd (get_session cl now sm sid h u))) sid
       = Some (fst (get_session cl now sm sid h u))
   \<and> manager_ok (snd (get_session cl now sm sid h u))
   \<and> (\<not> (t2 - now > session_timeout sm)
         \<longrightarrow> fst (get_session cl2 t2 (snd (get_session cl now sm sid h u)) sid h2 u2)
               = (fst (get_session cl now sm sid h u))\<lparr>last_used := t2\<rparr>
             \<and> oid (fst (get_session cl2 t2 (snd (get_session cl now sm sid h u)) sid h2 u2))
               = oid (fst (get_session cl now sm sid h u)))
   \<and> (t2 - now > session_timeout sm
         \<longrightarrow> oid (fst (get_session cl2 t2 (snd (get_session cl now sm sid h u)) sid h2 u2))
               \<noteq> oid (fst (get_session cl now sm sid h u))
             \<and> created (fst (get_session cl2 t2 (snd (get_session cl now sm sid h u)) sid h2 u2))
               = t2)"
proof -
  assume ok: "manager_ok sm"
  then have d: "distinct (map fst (sessions sm))" by (simp add: manager_ok_def)
  define r1 where "r1 = get_session cl now sm sid h u"
  have ok1: "manager_ok (snd r1)" unfolding r1_def by (rule get_session_ok [OF ok])
  then have d1: "distinct (map fst (sessions (snd r1)))" by (simp add: manager_ok_def)
  have stored: "map_of (sessions (snd r1)) sid = Some (fst r1)"
    unfolding r1_def by (simp add: get_session_map_of [OF d])
  have lu: "last_used (fst r1) = now"
    unfolding r1_def by (simp add: get_session_unfold [OF d] split: option.splits)
  have to: "session_timeout (snd r1) = session_timeout sm"
    unfolding r1_def by (rule get_session_timeout [OF d])
  have cc: "new_close_calls sm (snd r1)
            = List.map_filter (\<lambda>entry. ssh_client (snd entry))
                (filter (is_expired sm now) (sessions sm))"
    unfolding r1_def by (rule get_session_close_calls [OF d])
  have dc: "distinct (new_close_calls sm (snd r1))"
    unfolding cc using ok
    by (intro distinct_map_filter_filter) (simp add: manager_ok_def stored_clients_def)
  have p1: "\<forall>entry\<in>set (sessions sm). fst entry \<noteq> sid \<longrightarrow>
       map_of (sessions (snd r1)) (fst entry)
         = (if is_expired sm now entry then None else Some (snd entry))"
  proof (intro ballI impI)
    fix entry
    assume m: "entry \<in> set (sessions sm)" and n: "fst entry \<noteq> sid"
    have "map_of (sessions sm) (fst entry) = Some (snd entry)" by (rule map_of_entry [OF d m])
    then show "map_of (sessions (snd r1)) (fst entry)
         = (if is_expired sm now entry then None else Some (snd entry))"
      unfolding r1_def using n by (simp add: get_session_map_of [OF d] map_of_filter_distinct [OF d])
  qed
  have p3: "\<forall>entry\<in>set (sessions sm). \<forall>c.
         is_expired sm now entry \<and> ssh_client (snd entry) = Some c
         \<longrightarrow> count_list (new_close_calls sm (snd r1)) c = 1"
  proof (intro ballI allI impI)
    fix entry c
    assume m: "entry \<in> set (sessions sm)"
      and e: "is_expired sm now entry \<and> ssh_client (snd entry) = Some c"
    have "c \<in> set (new_close_calls sm (snd r1))"
      unfolding cc List.map_filter_def using m e by force
    then show "count_list (new_close_calls sm (snd r1)) c = 1"
      by (rule distinct_count_one [OF dc])
  qed
  have p4: "\<forall>x. map_of (sessions sm) sid = Some x \<and> \<not> (now - last_used x > session_timeout sm)
         \<longrightarrow> fst r1 = x\<lparr>last_used := now\<rparr>"
    unfolding r1_def using get_session_existing [OF d] by blast
  have p5: "\<forall>x. map_of (sessions sm) sid = Some x \<and> now - last_used x > session_timeout sm
         \<longrightarrow> fst r1 = \<lparr> oid = next_oid sm, host = h, username = u, ssh_client = None,
                        created = now, last_used = now, local_env = [] \<rparr>
             \<and> oid (fst r1) \<noteq> oid x"
  proof (intro allI impI)
    fix x
    assume a: "map_of (sessions sm) sid = Some x \<and> now - last_used x > session_timeout sm"
    then have f: "fst r1 = \<lparr> oid = next_oid sm, host = h, username = u, ssh_client = None,
                        created = now, last_used = now, local_env = [] \<rparr>"
      unfolding r1_def using get_session_expired [OF d] by blast
    have "(sid, x) \<in> set (sessions sm)" using a by (simp add: map_of_SomeD)
    then have "oid x < next_oid sm" using ok by (auto simp: manager_ok_def list_all_iff)
    then show "fst r1 = \<lparr> oid = next_oid sm, host = h, username = u, ssh_client = None,
                        created = now, last_used = now, local_env = [] \<rparr>
             \<and> oid (fst r1) \<noteq> oid x"
      using f by simp
  qed
  have p6: "map_of (sessions sm) sid = None
         \<longrightarrow> fst r1 = \<lparr> oid = next_oid sm, host = h, username = u, ssh_client = None,
                        created = now, last_used = now, local_env = [] \<rparr>"
    unfolding r1_def using get_session_absent [OF d] by blast
  have p9: "\<not> (t2 - now > session_timeout sm)
         \<longrightarrow> fst (get_session cl2 t2 (snd r1) sid h2 u2) = (fst r1)\<lparr>last_used := t2\<rparr>
             \<and> oid (fst (get_session cl2 t2 (snd r1) sid h2 u2)) = oid (fst r1)"
  proof
    assume "\<not> (t2 - now > session_timeout sm)"
    then have "\<not> (t2 - last_used (fst r1) > session_timeout (snd r1))" by (simp add: lu to)
    then have "fst (get_session cl2 t2 (snd r1) sid h2 u2) = (fst r1)\<lparr>last_used := t2\<rparr>"
      by (rule get_session_existing [OF d1 stored])
    then show "fst (get_session cl2 t2 (snd r1) sid h2 u2) = (fst r1)\<lparr>last_used := t2\<rparr>
             \<and> oid (fst (get_session cl2 t2 (snd r1) sid h2 u2)) = oid (fst r1)"
      by simp
  qed
  have p10: "t2 - now > session_timeout sm
         \<longrightarrow> oid (fst (get_session cl2 t2 (snd r1) sid h2 u2)) \<noteq> oid (fst r1)
             \<and> created (fst (get_session cl2 t2 (snd r1) sid h2 u2)) = t2"
  proof
    assume "t2 - now > session_timeout sm"
    then have e: "t2 - last_used (fst r1) > session_timeout (snd r1)" by (simp add: lu to)
    have f: "fst (get_session cl2 t2 (snd r1) sid h2 u2)
             = \<lparr> oid = next_oid (snd r1), host = h2, username = u2, ssh_client = None,
                 created = t2, last_used = t2, local_env = [] \<rparr>"
      by (rule get_session_expired [OF d1 stored e])
    have "(sid, fst r1) \<in> set (sessions (snd r1))" using stored by (simp add: map_of_SomeD)
    then have "oid (fst r1) < next_oid (snd r1)"
      using ok1 by (auto simp: manager_ok_def list_all_iff)
    then show "oid (fst (get_session cl2 t2 (snd r1) sid h2 u2)) \<noteq> oid (fst r1)
             \<and> created (fst (get_session cl2 t2 (snd r1) sid h2 u2)) = t2"
      by (simp add: f)
  qed
  show ?thesis
    using p1 cc p3 p4 p5 p6 stored ok1 p9 p10 unfolding r1_def by (intro conjI)
qed

theorem get_session_sweeps_and_reuses_witness:
  "manager_ok two_sessions
   \<and> fst (get_session close_raises 1100 two_sessions ''s1'' None None)
       = \<lparr> oid = 0, host = Some ''db1'', username = Some ''ops'', ssh_client = Some 7,
           created = 0, last_used = 1100, local_env = [] \<rparr>
   \<and> new_close_calls two_sessions (snd (get_session close_raises 1100 two_sessions ''s1'' None None))
       = []
   \<and> fst (get_session close_raises 1300 two_sessions ''s1'' None None)
       = \<lparr> oid = 2, host = None, username = None, ssh_client = None,
           created = 1300, last_used = 1300, local_env = [] \<rparr>
   \<and> count_list
         (new_close_calls two_sessions (snd (get_session close_raises 1300 two_sessions ''s1'' None None)))
         7 = 1
   \<and> map_of (sessions (snd (get_session close_raises 1300 two_sessions ''s1'' None None))) ''s2''
       = Some \<lparr> oid = 1, host = None, username = None, ssh_client = None,
                created = 900, last_used = 1000, local_env = [(''LANG'', ''C'')] \<rparr>
   \<and> map_of (sessions (snd (get_session close_raises 2300 two_sessions ''s1'' None None))) ''s2''
       = None"
proof -
  have ok: "manager_ok two_sessions"
    by (simp add: manager_ok_def two_sessions_def stored_clients_def List.map_filter_def)
  have s: "sessions two_sessions
           = [(''s1'', \<lparr> oid = 0, host = Some ''db1'', username = Some ''ops'', ssh_client = Some 7,
                    created = 0, last_used = 0, local_env = [] \<rparr>),
              (''s2'', \<lparr> oid = 1, host = None, username = None, ssh_client = None,
                    created = 900, last_used = 1000, local_env = [(''LANG'', ''C'')] \<rparr>)]"
    and t: "session_timeout two_sessions = 1200" and n: "next_oid two_sessions = 2"
    by (simp_all add: two_sessions_def)
  have m1: "map_of (sessions two_sessions) ''s1''
            = Some \<lparr> oid = 0, host = Some ''db1'', username = Some ''ops'', ssh_client = Some 7,
                    created = 0, last_used = 0, local_env = [] \<rparr>"
    by (simp add: s)
  have e2: "(''s2'', \<lparr> oid = 1, host = None, username = None, ssh_client = None,
                    created = 900, last_used = 1000, local_env = [(''LANG'', ''C'')] \<rparr>)
            \<in> set (sessions two_sessions)"
    and e1: "(''s1'', \<lparr> oid = 0, host = Some ''db1'', username = Some ''ops'', ssh_client = Some 7,
                    created = 0, last_used = 0, local_env = [] \<rparr>) \<in> set (sessions two_sessions)"
    by (simp_all add: s)
  note a = get_session_sweeps_and_reuses [OF ok, where cl = close_raises and now = 1100
      and sid = "''s1''" and h = None and u = None]
  note b = get_session_sweeps_and_reuses [OF ok, where cl = close_raises and now = 1300
      and sid = "''s1''" and h = None and u = None]
  note c = get_session_sweeps_and_reuses [OF ok, where cl = close_raises and now = 2300
      and sid = "''s1''" and h = None and u = None]
  have 1: "fst (get_session close_raises 1100 two_sessions ''s1'' None None)
       = \<lparr> oid = 0, host = Some ''db1'', username = Some ''ops'', ssh_client = Some 7,
           created = 0, last_used = 1100, local_env = [] \<rparr>"
    using a m1 by (simp add: t)
  have 2: "new_close_calls two_sessions (snd (get_session close_raises 1100 two_sessions ''s1'' None None))
       = []"
    using a by (simp add: s t is_expired_def List.map_filter_def)
  have 3: "fst (get_session close_raises 1300 two_sessions ''s1'' None None)
       = \<lparr> oid = 2, host = None, username = None, ssh_client = None,
           created = 1300, last_used = 1300, local_env = [] \<rparr>"
    using b m1 by (simp add: t n)
  have x1: "is_expired two_sessions 1300 (''s1'', \<lparr> oid = 0, host = Some ''db1'',
              username = Some ''ops'', ssh_client = Some 7, created = 0, last_used = 0,
              local_env = [] \<rparr>)"
    by (simp add: is_expired_def t)
  have 4: "count_list
         (new_close_calls two_sessions (snd (get_session close_raises 1300 two_sessions ''s1'' None None)))
         7 = 1"
    using b e1 x1 by force
  have x2: "\<not> is_expired two_sessions 1300 (''s2'', \<lparr> oid = 1, host = None, username = None,
              ssh_client = None, created = 900, last_used = 1000, local_env = [(''LANG'', ''C'')] \<rparr>)"
    and x3: "is_expired two_sessions 2300 (''s2'', \<lparr> oid = 1, host = None, username = None,
              ssh_client = None, created = 900, last_used = 1000, local_env = [(''LANG'', ''C'')] \<rparr>)"
    by (simp_all add: is_expired_def t)
  have 5: "map_of (sessions (snd (get_session close_raises 1300 two_sessions ''s1'' None None))) ''s2''
       = Some \<lparr> oid = 1, host = None, username = None, ssh_client = None,
                created = 900, last_used = 1000, local_env = [(''LANG'', ''C'')] \<rparr>"
    using b e2 x2 by force
  have 6: "map_of (sessions (snd (get_session close_raises 2300 two_sessions ''s1'' None None))) ''s2''
       = None"
    using c e2 x3 by force
  show ?thesis using ok 1 2 3 4 5 6 by simp
qed

end
